theory Spec2Isabelle
  imports Main
begin

section \<open>JavaScript values and strings\<close>

text \<open>
  The bridge (the two-provider HTTP wrapper, \<^verbatim>\<open>src/unnamed/part_000\<close>) handles decoded
  JSON only.  A JavaScript value that came out of \<^verbatim>\<open>JSON.parse\<close> or \<^verbatim>\<open>express.json()\<close>
  is a \<open>json\<close>; \<^verbatim>\<open>undefined\<close> is \<open>None\<close> of \<open>json option\<close>.  An object is the list of
  its own properties, in the order in which they were written (JavaScript lists keys
  that are array indices first; nothing below reads the order of an object's keys).
  Numbers are the integers (the ids the bridge draws are integers); a string is a list
  of code units below 256.
\<close>

datatype json =
    JNull
  | JBool bool
  | JNum int
  | JStr string
  | JArr "json list"
  | JObj "(string \<times> json) list"

text \<open>Truthiness, as \<^verbatim>\<open>if (v)\<close>, \<^verbatim>\<open>v && ...\<close> and \<^verbatim>\<open>v || ...\<close> test it.\<close>

fun truthy :: "json \<Rightarrow> bool" where
  "truthy JNull = False"
| "truthy (JBool b) = b"
| "truthy (JNum n) = (n \<noteq> 0)"
| "truthy (JStr s) = (s \<noteq> [])"
| "truthy (JArr xs) = True"
| "truthy (JObj kvs) = True"

fun truthy_opt :: "json option \<Rightarrow> bool" where
  "truthy_opt None = False"
| "truthy_opt (Some v) = truthy v"

text \<open>
  Property read \<^verbatim>\<open>v.k\<close> on a value that is not \<^verbatim>\<open>null\<close>.  It is used with the keys
  \<^verbatim>\<open>id result tools name method params provider arguments\<close> only, none of which is
  inherited from a prototype, so only objects have them.
\<close>

fun get_prop :: "string \<Rightarrow> json \<Rightarrow> json option" where
  "get_prop k (JObj kvs) = map_of kvs k"
| "get_prop k v = None"

text \<open>Optional chaining \<^verbatim>\<open>v?.k\<close>: \<^verbatim>\<open>undefined\<close> when \<open>v\<close> is \<^verbatim>\<open>null\<close> or \<^verbatim>\<open>undefined\<close>.\<close>

fun opt_prop :: "string \<Rightarrow> json option \<Rightarrow> json option" where
  "opt_prop k None = None"
| "opt_prop k (Some v) = get_prop k v"

text \<open>Property write \<^verbatim>\<open>o[k] = v\<close> on the property list: in place, or appended.\<close>

fun obj_set :: "string \<Rightarrow> json \<Rightarrow> (string \<times> json) list \<Rightarrow> (string \<times> json) list" where
  "obj_set k v [] = [(k, v)]"
| "obj_set k v ((k', v') # kvs) =
     (if k' = k then (k, v) # kvs else (k', v') # obj_set k v kvs)"

text \<open>
  Strict equality \<^verbatim>\<open>a === b\<close> of two values: by value on primitives; two objects (or
  arrays) that were built separately are never the same object.
\<close>

fun primitive :: "json \<Rightarrow> bool" where
  "primitive (JArr xs) = False"
| "primitive (JObj kvs) = False"
| "primitive v = True"

definition strict_eq :: "json option \<Rightarrow> json option \<Rightarrow> bool" where
  "strict_eq a b =
     (case a of
        None \<Rightarrow> b = None
      | Some x \<Rightarrow> (case b of None \<Rightarrow> False | Some y \<Rightarrow> primitive x \<and> x = y))"

text \<open>\<^verbatim>\<open>v == null\<close>: true of \<^verbatim>\<open>null\<close> and \<^verbatim>\<open>undefined\<close> only.\<close>

fun loosely_null :: "json option \<Rightarrow> bool" where
  "loosely_null None = True"
| "loosely_null (Some JNull) = True"
| "loosely_null (Some v) = False"

subsection \<open>String methods\<close>

text \<open>The white space \<^verbatim>\<open>String.prototype.trim\<close> removes, among the code units below 256.\<close>

definition is_ws :: "char \<Rightarrow> bool" where
  "is_ws c = (c \<in> set [CHR 0x09, CHR 0x0A, CHR 0x0B, CHR 0x0C, CHR 0x0D, CHR 0x20, CHR 0xA0])"

definition js_trim :: "string \<Rightarrow> string" where
  "js_trim s = rev (dropWhile is_ws (rev (dropWhile is_ws s)))"

text \<open>\<^verbatim>\<open>s.split(sep)\<close> for a one-character separator: never the empty list.\<close>

fun js_split :: "char \<Rightarrow> string \<Rightarrow> string list" where
  "js_split sep [] = [[]]"
| "js_split sep (c # cs) =
     (if c = sep then [] # js_split sep cs
      else (case js_split sep cs of [] \<Rightarrow> [[c]] | l # ls \<Rightarrow> (c # l) # ls))"

text \<open>\<^verbatim>\<open>parts.join(sep)\<close>.\<close>

fun js_join :: "string \<Rightarrow> string list \<Rightarrow> string" where
  "js_join sep [] = []"
| "js_join sep [x] = x"
| "js_join sep (x # y # ys) = x @ sep @ js_join sep (y # ys)"

text \<open>\<^verbatim>\<open>line.startsWith('{') || line.startsWith('[')\<close>.\<close>

definition looks_like_json :: "string \<Rightarrow> bool" where
  "looks_like_json line =
     (case line of [] \<Rightarrow> False | c # _ \<Rightarrow> c = CHR ''{'' \<or> c = CHR ''['')"

text \<open>\<^verbatim>\<open>s.toLowerCase()\<close> on code units below 256: A to Z, and the capital letters of Latin-1.\<close>

definition lower_char :: "char \<Rightarrow> char" where
  "lower_char c =
     (let n = (of_char c :: nat) in
      if (65 \<le> n \<and> n \<le> 90) \<or> (192 \<le> n \<and> n \<le> 222 \<and> n \<noteq> 215)
      then char_of (n + 32) else c)"

definition toLowerCase :: "string \<Rightarrow> string" where
  "toLowerCase s = map lower_char s"

text \<open>Decimal digits of a natural number, and \<^verbatim>\<open>String(n)\<close> of an integer.\<close>

fun digits :: "nat \<Rightarrow> nat \<Rightarrow> string" where
  "digits 0 n = []"
| "digits (Suc fuel) n =
     (if n < 10 then [char_of (48 + n)]
      else digits fuel (n div 10) @ [char_of (48 + n mod 10)])"

definition int_to_string :: "int \<Rightarrow> string" where
  "int_to_string i =
     (if i < 0 then CHR ''-'' # digits (Suc (nat (- i))) (nat (- i))
      else digits (Suc (nat i)) (nat i))"

text \<open>
  \<^verbatim>\<open>String(v)\<close>, which is also what a template literal and \<^verbatim>\<open>v.toString()\<close> give for a
  value decoded from JSON.  An array joins its elements with a comma, \<^verbatim>\<open>null\<close> elements
  as the empty string.  An object is \<^verbatim>\<open>[object Object]\<close>, unless it has a property of
  its own named \<^verbatim>\<open>toString\<close>, which is not callable: then the conversion throws a
  TypeError, \<open>None\<close> here.
\<close>

fun js_String :: "json \<Rightarrow> string option"
  and js_elems :: "json list \<Rightarrow> string list option" where
  "js_String JNull = Some ''null''"
| "js_String (JBool b) = Some (if b then ''true'' else ''false'')"
| "js_String (JNum n) = Some (int_to_string n)"
| "js_String (JStr s) = Some s"
| "js_String (JArr xs) = map_option (js_join '','') (js_elems xs)"
| "js_String (JObj kvs) =
     (if ''toString'' \<in> set (map fst kvs) then None else Some ''[object Object]'')"
| "js_elems [] = Some []"
| "js_elems (x # xs) =
     (case (if x = JNull then Some [] else js_String x) of
        None \<Rightarrow> None
      | Some s \<Rightarrow> map_option ((#) s) (js_elems xs))"

subsection \<open>A reference decoder for JSON text\<close>

text \<open>
  \<^verbatim>\<open>JSON.parse\<close> belongs to the JavaScript runtime, not to the repository.  The
  listeners below take the decoder as a parameter \<open>parse\<close>, with \<open>None\<close> for a thrown
  SyntaxError, so what is proved of them holds of every decoder.  \<open>JSON_parse\<close> is a
  decoder for the JSON grammar with integer numbers and the two-character escapes; it
  is what the concrete evaluations use.  It reads the text once into tokens and then
  runs a stack of the containers that are still open.
\<close>

datatype token = TLBrace | TRBrace | TLBrack | TRBrack | TColon | TComma | TAtom json

datatype lexmode = LTop | LStr string | LEsc string | LNum string | LWord string

definition is_digit :: "char \<Rightarrow> bool" where
  "is_digit c = (48 \<le> (of_char c :: nat) \<and> (of_char c :: nat) \<le> 57)"

definition is_letter :: "char \<Rightarrow> bool" where
  "is_letter c = (97 \<le> (of_char c :: nat) \<and> (of_char c :: nat) \<le> 122)"

definition digit_val :: "char \<Rightarrow> int" where
  "digit_val c = int (of_char c) - 48"

definition num_value :: "string \<Rightarrow> int option" where
  "num_value s =
     (let neg = (s \<noteq> [] \<and> hd s = CHR ''-'');
          ds = (if neg then tl s else s)
      in if ds = [] \<or> \<not> list_all is_digit ds \<or> (hd ds = CHR ''0'' \<and> tl ds \<noteq> []) then None
         else (let n = foldl (\<lambda>a c. 10 * a + digit_val c) 0 ds
               in Some (if neg then - n else n)))"

definition word_value :: "string \<Rightarrow> json option" where
  "word_value s =
     (if s = ''true'' then Some (JBool True)
      else if s = ''false'' then Some (JBool False)
      else if s = ''null'' then Some JNull
      else None)"

definition lex_top :: "char \<Rightarrow> token list \<Rightarrow> (lexmode \<times> token list) option" where
  "lex_top c ts =
     (if c \<in> set [CHR 0x20, CHR 0x09, CHR 0x0A, CHR 0x0D] then Some (LTop, ts)
      else if c = CHR ''{'' then Some (LTop, ts @ [TLBrace])
      else if c = CHR ''}'' then Some (LTop, ts @ [TRBrace])
      else if c = CHR ''['' then Some (LTop, ts @ [TLBrack])
      else if c = CHR '']'' then Some (LTop, ts @ [TRBrack])
      else if c = CHR '':'' then Some (LTop, ts @ [TColon])
      else if c = CHR '','' then Some (LTop, ts @ [TComma])
      else if c = CHR 0x22 then Some (LStr [], ts)
      else if c = CHR ''-'' \<or> is_digit c then Some (LNum [c], ts)
      else if is_letter c then Some (LWord [c], ts)
      else None)"

definition unescape :: "char \<Rightarrow> char option" where
  "unescape c =
     (if c = CHR 0x22 \<or> c = CHR 0x5C \<or> c = CHR ''/'' then Some c
      else if c = CHR ''b'' then Some (CHR 0x08)
      else if c = CHR ''f'' then Some (CHR 0x0C)
      else if c = CHR ''n'' then Some (CHR 0x0A)
      else if c = CHR ''r'' then Some (CHR 0x0D)
      else if c = CHR ''t'' then Some (CHR 0x09)
      else None)"

fun lex_step :: "lexmode \<times> token list \<Rightarrow> char \<Rightarrow> (lexmode \<times> token list) option" where
  "lex_step (LTop, ts) c = lex_top c ts"
| "lex_step (LStr s, ts) c =
     (if c = CHR 0x22 then Some (LTop, ts @ [TAtom (JStr s)])
      else if c = CHR 0x5C then Some (LEsc s, ts)
      else if (of_char c :: nat) < 32 then None
      else Some (LStr (s @ [c]), ts))"
| "lex_step (LEsc s, ts) c =
     (case unescape c of None \<Rightarrow> None | Some d \<Rightarrow> Some (LStr (s @ [d]), ts))"
| "lex_step (LNum s, ts) c =
     (if is_digit c then Some (LNum (s @ [c]), ts)
      else (case num_value s of None \<Rightarrow> None
            | Some n \<Rightarrow> lex_top c (ts @ [TAtom (JNum n)])))"
| "lex_step (LWord s, ts) c =
     (if is_letter c then Some (LWord (s @ [c]), ts)
      else (case word_value s of None \<Rightarrow> None
            | Some v \<Rightarrow> lex_top c (ts @ [TAtom v])))"

fun lex_from :: "lexmode \<times> token list \<Rightarrow> string \<Rightarrow> token list option" where
  "lex_from (LTop, ts) [] = Some ts"
| "lex_from (LNum s, ts) [] = map_option (\<lambda>n. ts @ [TAtom (JNum n)]) (num_value s)"
| "lex_from (LWord s, ts) [] = map_option (\<lambda>v. ts @ [TAtom v]) (word_value s)"
| "lex_from (LStr s, ts) [] = None"
| "lex_from (LEsc s, ts) [] = None"
| "lex_from st (c # cs) =
     (case lex_step st c of None \<Rightarrow> None | Some st' \<Rightarrow> lex_from st' cs)"

datatype frame = FArr "json list" | FObj "(string \<times> json) list" "string option"

datatype expect =
    EValue | EValueOrClose | EKey | EKeyOrClose | EColon | ECommaOrClose | EEnd json

text \<open>A value is complete: it goes into the innermost open container, or is the result.\<close>

fun push_value :: "json \<Rightarrow> frame list \<Rightarrow> (frame list \<times> expect) option" where
  "push_value v [] = Some ([], EEnd v)"
| "push_value v (FArr es # st) = Some (FArr (es @ [v]) # st, ECommaOrClose)"
| "push_value v (FObj kvs (Some k) # st) = Some (FObj (obj_set k v kvs) None # st, ECommaOrClose)"
| "push_value v (FObj kvs None # st) = None"

text \<open>Closing the innermost container, which must be of the bracket's kind.\<close>

fun close_array :: "frame list \<Rightarrow> (frame list \<times> expect) option" where
  "close_array (FArr es # st) = push_value (JArr es) st"
| "close_array st = None"

fun close_object :: "frame list \<Rightarrow> (frame list \<times> expect) option" where
  "close_object (FObj kvs None # st) = push_value (JObj kvs) st"
| "close_object st = None"

fun open_key :: "string \<Rightarrow> frame list \<Rightarrow> (frame list \<times> expect) option" where
  "open_key k (FObj kvs None # st) = Some (FObj kvs (Some k) # st, EColon)"
| "open_key k st = None"

fun after_comma :: "frame list \<Rightarrow> (frame list \<times> expect) option" where
  "after_comma (FArr es # st) = Some (FArr es # st, EValue)"
| "after_comma (FObj kvs None # st) = Some (FObj kvs None # st, EKey)"
| "after_comma st = None"

definition start_value :: "frame list \<Rightarrow> token \<Rightarrow> (frame list \<times> expect) option" where
  "start_value st t =
     (case t of
        TAtom v \<Rightarrow> push_value v st
      | TLBrack \<Rightarrow> Some (FArr [] # st, EValueOrClose)
      | TLBrace \<Rightarrow> Some (FObj [] None # st, EKeyOrClose)
      | _ \<Rightarrow> None)"

definition parse_step :: "frame list \<times> expect \<Rightarrow> token \<Rightarrow> (frame list \<times> expect) option" where
  "parse_step s t =
     (case s of (st, e) \<Rightarrow>
       (case e of
          EValue \<Rightarrow> start_value st t
        | EValueOrClose \<Rightarrow> (if t = TRBrack then close_array st else start_value st t)
        | EKey \<Rightarrow> (case t of TAtom (JStr k) \<Rightarrow> open_key k st | _ \<Rightarrow> None)
        | EKeyOrClose \<Rightarrow>
            (if t = TRBrace then close_object st
             else (case t of TAtom (JStr k) \<Rightarrow> open_key k st | _ \<Rightarrow> None))
        | EColon \<Rightarrow> (if t = TColon then Some (st, EValue) else None)
        | ECommaOrClose \<Rightarrow>
            (if t = TComma then after_comma st
             else if t = TRBrack then close_array st
             else if t = TRBrace then close_object st
             else None)
        | EEnd v \<Rightarrow> None))"

fun parse_from :: "frame list \<times> expect \<Rightarrow> token list \<Rightarrow> json option" where
  "parse_from ([], EEnd v) [] = Some v"
| "parse_from s [] = None"
| "parse_from s (t # ts) =
     (case parse_step s t of None \<Rightarrow> None | Some s' \<Rightarrow> parse_from s' ts)"

definition JSON_parse :: "string \<Rightarrow> json option" where
  "JSON_parse text =
     (case lex_from (LTop, []) text of None \<Rightarrow> None
      | Some ts \<Rightarrow> parse_from ([], EValue) ts)"

section \<open>The listeners on a child's standard output\<close>

text \<open>
  A chunk of the child's output is the text \<^verbatim>\<open>data.toString()\<close> gives.  A promise is
  settled once: \<^verbatim>\<open>resolve\<close> and \<^verbatim>\<open>reject\<close> on a settled promise do nothing.
\<close>

type_synonym decoder = "string \<Rightarrow> json option"

datatype outcome = Pending | Fulfilled json | Rejected string

fun settle :: "outcome \<Rightarrow> outcome \<Rightarrow> outcome" where
  "settle new Pending = new"
| "settle new old = old"

text \<open>An exception that no handler catches ends the bridge process.\<close>

datatype fatal = UncaughtSyntaxError | UncaughtTypeError

text \<open>
  A listener is a closure registered with \<^verbatim>\<open>stdout.on('data', ...)\<close>: its carry-over
  buffer (\<^verbatim>\<open>initBuffer\<close>, \<^verbatim>\<open>callBuffer\<close>; the xero listeners have none), whether it is
  still registered, and the promise it settles.  A call's listener also knows the
  message that was sent.
\<close>

record listener =
  buffer :: string
  attached :: bool
  promise :: outcome

record call = listener +
  message :: json

definition new_listener :: listener where
  "new_listener = \<lparr>buffer = [], attached = True, promise = Pending\<rparr>"

definition new_call :: "json \<Rightarrow> call" where
  "new_call msg = \<lparr>buffer = [], attached = True, promise = Pending, message = msg\<rparr>"

subsection \<open>Initialization: \<^verbatim>\<open>onInitData\<close>\<close>

text \<open>\<^verbatim>\<open>parsed && parsed.result\<close>.\<close>

definition has_result :: "json \<Rightarrow> bool" where
  "has_result parsed = (truthy parsed \<and> truthy_opt (get_prop ''result'' parsed))"

text \<open>
  The loop of xero's \<^verbatim>\<open>onInitData\<close> (part_000, lines 64 to 80) over the trimmed,
  non-empty lines of one chunk: true when it reaches \<^verbatim>\<open>resolve(true)\<close>.
\<close>

fun xero_init_scan :: "decoder \<Rightarrow> string list \<Rightarrow> bool" where
  "xero_init_scan parse [] = False"
| "xero_init_scan parse (line # lines) =
     (if \<not> looks_like_json line then xero_init_scan parse lines
      else (case parse line of
              None \<Rightarrow> xero_init_scan parse lines
            | Some parsed \<Rightarrow>
                if has_result parsed then True else xero_init_scan parse lines))"

definition xero_onInitData :: "decoder \<Rightarrow> string \<Rightarrow> listener \<Rightarrow> listener" where
  "xero_onInitData parse data l =
     (let text = data;
          lines = filter (\<lambda>x. x \<noteq> []) (map js_trim (js_split (CHR 0x0A) text))
      in if xero_init_scan parse lines
         then l\<lparr>attached := False, promise := settle (Fulfilled (JBool True)) (promise l)\<rparr>
         else l)"

text \<open>
  The timer of \<^verbatim>\<open>initMCPServer\<close> (lines 100 to 105); \<open>proc\<close> says whether
  \<^verbatim>\<open>mcpServerProcess\<close> is set.
\<close>

definition xero_init_timeout :: "bool \<Rightarrow> listener \<Rightarrow> listener" where
  "xero_init_timeout proc l =
     (let l' = (if proc then l\<lparr>attached := False\<rparr> else l)
      in l'\<lparr>promise := settle (Rejected ''Timeout during initialization'') (promise l')\<rparr>)"

text \<open>
  The loop of supabase's \<^verbatim>\<open>onInitData\<close> (lines 232 to 244) over the complete lines.
\<close>

fun supabase_init_scan :: "decoder \<Rightarrow> string list \<Rightarrow> bool" where
  "supabase_init_scan parse [] = False"
| "supabase_init_scan parse (raw # lines) =
     (let line = js_trim raw in
      if line = [] \<or> \<not> looks_like_json line then supabase_init_scan parse lines
      else (case parse line of
              None \<Rightarrow> supabase_init_scan parse lines
            | Some response \<Rightarrow>
                if has_result response then True else supabase_init_scan parse lines))"

text \<open>
  Supabase's \<^verbatim>\<open>onInitData\<close> (lines 224 to 248).  When the loop finds the init response
  but \<^verbatim>\<open>supabaseProcess\<close> is \<^verbatim>\<open>null\<close> by then (\<open>proc\<close> false), reading
  \<^verbatim>\<open>supabaseProcess.stdout\<close> throws before \<^verbatim>\<open>resolve(true)\<close>; the \<^verbatim>\<open>catch\<close> around it
  is empty, so the loop goes on and the promise stays as it was.
\<close>

definition supabase_onInitData :: "decoder \<Rightarrow> bool \<Rightarrow> string \<Rightarrow> listener \<Rightarrow> listener" where
  "supabase_onInitData parse proc data l =
     (let lines = js_split (CHR 0x0A) (buffer l @ data);
          l' = l\<lparr>buffer := last lines\<rparr>
      in if supabase_init_scan parse (butlast lines) \<and> proc
         then l'\<lparr>attached := False, promise := settle (Fulfilled (JBool True)) (promise l')\<rparr>
         else l')"

definition supabase_init_timeout :: "bool \<Rightarrow> listener \<Rightarrow> listener" where
  "supabase_init_timeout proc l =
     (let l' = (if proc then l\<lparr>attached := False\<rparr> else l)
      in l'\<lparr>promise := settle (Rejected ''Supabase MCP init timeout'') (promise l')\<rparr>)"

subsection \<open>Calls: \<^verbatim>\<open>onData\<close>\<close>

text \<open>
  Xero's \<^verbatim>\<open>onData\<close> (lines 122 to 128): the first chunk that is not blank is decoded
  whole and resolves the call.  \<^verbatim>\<open>JSON.parse\<close> is called inside the listener with no
  \<^verbatim>\<open>try\<close> around it, after the listener was removed.
\<close>

definition xero_onData :: "decoder \<Rightarrow> string \<Rightarrow> call \<Rightarrow> fatal + call" where
  "xero_onData parse data c =
     (let response = js_trim data in
      if response = [] then Inr c
      else (case parse response of
              None \<Rightarrow> Inl UncaughtSyntaxError
            | Some v \<Rightarrow>
                Inr (c\<lparr>attached := False, promise := settle (Fulfilled v) (promise c)\<rparr>)))"

text \<open>The timer of \<^verbatim>\<open>sendMCPMessage\<close> (lines 133 to 136).\<close>

definition xero_call_timeout :: "call \<Rightarrow> call" where
  "xero_call_timeout c =
     c\<lparr>attached := False,
       promise := settle (Rejected ''Timeout waiting for response'') (promise c)\<rparr>"

text \<open>
  The loop of supabase's \<^verbatim>\<open>onData\<close> (lines 277 to 286) over the complete lines: the
  frame it resolves with, if any.
\<close>

fun supabase_scan :: "decoder \<Rightarrow> json option \<Rightarrow> string list \<Rightarrow> json option" where
  "supabase_scan parse expectedId [] = None"
| "supabase_scan parse expectedId (raw # lines) =
     (let line = js_trim raw in
      if line = [] \<or> \<not> looks_like_json line then supabase_scan parse expectedId lines
      else (case parse line of
              None \<Rightarrow> supabase_scan parse expectedId lines
            | Some parsed \<Rightarrow>
                if truthy parsed \<and>
                   (strict_eq (get_prop ''id'' parsed) expectedId \<or> loosely_null expectedId)
                then Some parsed
                else supabase_scan parse expectedId lines))"

text \<open>
  Supabase's \<^verbatim>\<open>onData\<close> (lines 269 to 291), with \<^verbatim>\<open>expectedId = message.id\<close>.  On a
  match with \<^verbatim>\<open>supabaseProcess\<close> already \<^verbatim>\<open>null\<close> (\<open>proc\<close> false),
  \<^verbatim>\<open>supabaseProcess.stdout\<close> throws, and so does the same expression in the \<^verbatim>\<open>catch\<close>
  block.
\<close>

definition supabase_onData :: "decoder \<Rightarrow> bool \<Rightarrow> string \<Rightarrow> call \<Rightarrow> fatal + call" where
  "supabase_onData parse proc data c =
     (let expectedId = get_prop ''id'' (message c);
          lines = js_split (CHR 0x0A) (buffer c @ data);
          c' = c\<lparr>buffer := last lines\<rparr>
      in case supabase_scan parse expectedId (butlast lines) of
           None \<Rightarrow> Inr c'
         | Some parsed \<Rightarrow>
             if proc
             then Inr (c'\<lparr>attached := False, promise := settle (Fulfilled parsed) (promise c')\<rparr>)
             else Inl UncaughtTypeError)"

text \<open>The timer of \<^verbatim>\<open>sendSupabaseMessage\<close> (lines 294 to 297).\<close>

definition supabase_call_timeout :: "bool \<Rightarrow> call \<Rightarrow> fatal + call" where
  "supabase_call_timeout proc c =
     (if proc
      then Inr (c\<lparr>attached := False,
                  promise := settle (Rejected ''Supabase response timeout'') (promise c)\<rparr>)
      else Inl UncaughtTypeError)"

subsection \<open>One chunk, every registered listener\<close>

text \<open>
  \<^verbatim>\<open>stdout\<close> emits a chunk to every listener registered at that moment, in the order of
  registration; a listener that throws ends the emission.  Calls issued concurrently
  are the list of their listeners.
\<close>

fun emit :: "(call \<Rightarrow> fatal + call) \<Rightarrow> call list \<Rightarrow> fatal + call list" where
  "emit on_data [] = Inr []"
| "emit on_data (c # cs) =
     (if \<not> attached c
      then (case emit on_data cs of Inl e \<Rightarrow> Inl e | Inr cs' \<Rightarrow> Inr (c # cs'))
      else (case on_data c of
              Inl e \<Rightarrow> Inl e
            | Inr c' \<Rightarrow>
                (case emit on_data cs of Inl e \<Rightarrow> Inl e | Inr cs' \<Rightarrow> Inr (c' # cs'))))"

definition xero_emit :: "decoder \<Rightarrow> string \<Rightarrow> call list \<Rightarrow> fatal + call list" where
  "xero_emit parse data cs = emit (xero_onData parse data) cs"

definition supabase_emit :: "decoder \<Rightarrow> bool \<Rightarrow> string \<Rightarrow> call list \<Rightarrow> fatal + call list" where
  "supabase_emit parse proc data cs = emit (supabase_onData parse proc data) cs"

text \<open>A stream that arrives as a sequence of chunks.\<close>

fun feed :: "(string \<Rightarrow> call list \<Rightarrow> fatal + call list) \<Rightarrow> string list \<Rightarrow> call list
    \<Rightarrow> fatal + call list" where
  "feed em [] cs = Inr cs"
| "feed em (data # chunks) cs =
     (case em data cs of Inl e \<Rightarrow> Inl e | Inr cs' \<Rightarrow> feed em chunks cs')"

text \<open>
  Call \<open>c\<close>, which started as \<open>c0\<close>, has consumed the stream so far through supabase's
  \<^verbatim>\<open>onData\<close>: either none of its complete lines matched, the call is pending and its
  buffer is the incomplete last line, or the call was resolved with the first match.
\<close>

definition consumed :: "decoder \<Rightarrow> string \<Rightarrow> call \<Rightarrow> call \<Rightarrow> bool" where
  "consumed parse stream c0 c \<longleftrightarrow>
     message c = message c0 \<and>
     (case supabase_scan parse (get_prop ''id'' (message c0))
             (butlast (js_split (CHR 0x0A) stream)) of
        None \<Rightarrow> attached c \<and> promise c = Pending \<and> buffer c = last (js_split (CHR 0x0A) stream)
      | Some v \<Rightarrow> \<not> attached c \<and> promise c = Fulfilled v)"

section \<open>The HTTP handlers\<close>

text \<open>
  A handler is an \<^verbatim>\<open>async\<close> function that suspends at each \<^verbatim>\<open>await\<close>.  It is modelled as
  the tree of what it does next: respond, or call \<^verbatim>\<open>init\<close> or \<^verbatim>\<open>send\<close> of a provider and
  continue with how that promise settled (\<open>Inl\<close> the message of the Error it rejected
  with, \<open>Inr\<close> the value it resolved with), or draw an id from a provider's counter.
\<close>

datatype pkey = Xero | Supabase

datatype prog =
    Respond nat json
  | Init pkey "string + json \<Rightarrow> prog"
  | InitAll "string + json \<Rightarrow> prog"
  | NextId pkey "int \<Rightarrow> prog"
  | Send pkey json "string + json \<Rightarrow> prog"

text \<open>
  The registry \<^verbatim>\<open>providers\<close> (lines 15 to 24) is an object literal with the keys
  \<^verbatim>\<open>xero\<close> and \<^verbatim>\<open>supabase\<close>; \<^verbatim>\<open>providers[key]\<close> also finds what every object inherits,
  which is truthy but has no \<^verbatim>\<open>init\<close>.
\<close>

datatype entry = Provider pkey | Inherited | Missing

definition inherited_keys :: "string list" where
  "inherited_keys =
     [''constructor'', ''__proto__'', ''__defineGetter__'', ''__defineSetter__'',
      ''__lookupGetter__'', ''__lookupSetter__'', ''hasOwnProperty'', ''isPrototypeOf'',
      ''propertyIsEnumerable'', ''toLocaleString'', ''toString'', ''valueOf'']"

definition providers :: "string \<Rightarrow> entry" where
  "providers key =
     (if key = ''xero'' then Provider Xero
      else if key = ''supabase'' then Provider Supabase
      else if key \<in> set inherited_keys then Inherited
      else Missing)"

fun key_of :: "pkey \<Rightarrow> string" where
  "key_of Xero = ''xero''"
| "key_of Supabase = ''supabase''"

subsection \<open>Messages and response bodies\<close>

definition jsonrpc :: "string \<times> json" where
  "jsonrpc = (''jsonrpc'', JStr ''2.0'')"

text \<open>The \<^verbatim>\<open>tools/list\<close> request of \<^verbatim>\<open>GET /tools\<close> and of the fan-out.\<close>

definition list_request :: "int \<Rightarrow> json" where
  "list_request i =
     JObj [jsonrpc, (''id'', JNum i), (''method'', JStr ''tools/list''),
           (''params'', JObj [])]"

text \<open>The \<^verbatim>\<open>tools/call\<close> request of the tool routes.\<close>

definition call_request :: "int \<Rightarrow> string \<Rightarrow> json \<Rightarrow> json" where
  "call_request i name args =
     JObj [jsonrpc, (''id'', JNum i), (''method'', JStr ''tools/call''),
           (''params'', JObj [(''name'', JStr name), (''arguments'', args)])]"

text \<open>\<^verbatim>\<open>{ jsonrpc: '2.0', error: { code, message } }\<close>.\<close>

definition error_body :: "int \<Rightarrow> string \<Rightarrow> json" where
  "error_body code msg =
     JObj [jsonrpc, (''error'', JObj [(''code'', JNum code), (''message'', JStr msg)])]"

text \<open>
  The \<^verbatim>\<open>catch\<close> blocks of the routed handlers: status 500 and
  \<^verbatim>\<open>e?.message || fallback\<close>.
\<close>

definition caught :: "string \<Rightarrow> string \<Rightarrow> prog" where
  "caught fallback msg = Respond 500 (error_body (- 32000) (if msg = [] then fallback else msg))"

definition tools_body :: "json list \<Rightarrow> json" where
  "tools_body tools = JObj [jsonrpc, (''result'', JObj [(''tools'', JArr tools)])]"

text \<open>\<^verbatim>\<open>resp?.result?.tools || []\<close>.\<close>

definition tools_of :: "json \<Rightarrow> json" where
  "tools_of resp =
     (case opt_prop ''tools'' (opt_prop ''result'' (Some resp)) of
        None \<Rightarrow> JArr []
      | Some tools \<Rightarrow> if truthy tools then tools else JArr [])"

text \<open>
  The own enumerable properties that \<^verbatim>\<open>{ ...t }\<close> copies: those of an object, the
  elements of an array and the characters of a string under their indices, nothing for
  another value.
\<close>

fun indexed :: "nat \<Rightarrow> json list \<Rightarrow> (string \<times> json) list" where
  "indexed i [] = []"
| "indexed i (x # xs) = (int_to_string (int i), x) # indexed (Suc i) xs"

fun spread :: "json \<Rightarrow> (string \<times> json) list" where
  "spread (JObj kvs) = kvs"
| "spread (JArr xs) = indexed 0 xs"
| "spread (JStr s) = indexed 0 (map (\<lambda>c. JStr [c]) s)"
| "spread v = []"

text \<open>
  \<^verbatim>\<open>{ ...t, name: `${key}.${t.name}` }\<close>: \<^verbatim>\<open>t.name\<close> throws on \<^verbatim>\<open>null\<close>, and an absent
  name reads \<^verbatim>\<open>undefined\<close>.  The texts of the TypeErrors are the runtime's.
\<close>

definition prefixed :: "string \<Rightarrow> json \<Rightarrow> string + json" where
  "prefixed key t =
     (if t = JNull then Inl ''Cannot read properties of null (reading 'name')''
      else (case (case get_prop ''name'' t of None \<Rightarrow> Some ''undefined''
                  | Some n \<Rightarrow> js_String n) of
              None \<Rightarrow> Inl ''Cannot convert object to primitive value''
            | Some n \<Rightarrow> Inr (JObj (obj_set ''name'' (JStr (key @ ''.'' @ n)) (spread t)))))"

fun prefixed_all :: "string \<Rightarrow> json list \<Rightarrow> string + json list" where
  "prefixed_all key [] = Inr []"
| "prefixed_all key (t # ts) =
     (case prefixed key t of
        Inl e \<Rightarrow> Inl e
      | Inr t' \<Rightarrow> (case prefixed_all key ts of Inl e \<Rightarrow> Inl e | Inr ts' \<Rightarrow> Inr (t' # ts')))"

text \<open>
  \<^verbatim>\<open>tools.map((t) => (all ? { ...t, name: ... } : t))\<close>: only an array has \<^verbatim>\<open>map\<close>.
\<close>

definition map_tools :: "bool \<Rightarrow> string \<Rightarrow> json \<Rightarrow> string + json list" where
  "map_tools all key tools =
     (case tools of
        JArr ts \<Rightarrow> if all then prefixed_all key ts else Inr ts
      | _ \<Rightarrow> Inl ''tools.map is not a function'')"

subsection \<open>\<^verbatim>\<open>GET /tools\<close> (lines 334 to 374)\<close>

text \<open>
  The query parameter \<^verbatim>\<open>provider\<close> is modelled where it is given at most once, so that
  Express presents a string: \<open>None\<close> when it is absent.
  \<^verbatim>\<open>(req.query.provider || 'xero').toString().toLowerCase()\<close>:
\<close>

definition tools_provider :: "string option \<Rightarrow> string" where
  "tools_provider q =
     toLowerCase (case q of None \<Rightarrow> ''xero'' | Some v \<Rightarrow> if v = [] then ''xero'' else v)"

text \<open>One of the two \<^verbatim>\<open>if\<close> blocks of the handler, then the rest of it; \<open>done\<close> is the
  array \<^verbatim>\<open>lists\<close> so far.\<close>

definition list_block :: "pkey \<Rightarrow> string \<Rightarrow> json list list \<Rightarrow> (json list list \<Rightarrow> prog) \<Rightarrow> prog" where
  "list_block p provider done rest =
     (if provider = key_of p \<or> provider = ''all''
      then Init p (\<lambda>r. case r of
             Inl e \<Rightarrow> caught ''tools error'' e
           | Inr ok \<Rightarrow>
               NextId p (\<lambda>i. Send p (list_request i) (\<lambda>r. case r of
                 Inl e \<Rightarrow> caught ''tools error'' e
               | Inr resp \<Rightarrow>
                   (case map_tools (provider = ''all'') (key_of p) (tools_of resp) of
                      Inl e \<Rightarrow> caught ''tools error'' e
                    | Inr tools \<Rightarrow> rest (done @ [tools])))))
      else rest done)"

definition get_tools :: "string option \<Rightarrow> prog" where
  "get_tools q =
     (let provider = tools_provider q in
      list_block Xero provider [] (\<lambda>done.
      list_block Supabase provider done (\<lambda>done.
      Respond 200 (tools_body (concat done)))))"

subsection \<open>\<^verbatim>\<open>POST /tools/:toolName\<close> (lines 443 to 489)\<close>

text \<open>
  The request body is what \<^verbatim>\<open>express.json()\<close> left in \<^verbatim>\<open>req.body\<close>: \<open>None\<close> when it is
  \<^verbatim>\<open>undefined\<close>.  \<^verbatim>\<open>(req.body && req.body.arguments) || {}\<close>:
\<close>

definition tool_args :: "json option \<Rightarrow> json" where
  "tool_args body =
     (case body of
        None \<Rightarrow> JObj []
      | Some b \<Rightarrow>
          if \<not> truthy b then JObj []
          else (case get_prop ''arguments'' b of
                  None \<Rightarrow> JObj []
                | Some a \<Rightarrow> if truthy a then a else JObj []))"

text \<open>
  The routing rules (lines 448 to 457): the provider key and the resolved tool name.
\<close>

definition has_dot :: "string \<Rightarrow> bool" where
  "has_dot s = (CHR ''.'' \<in> set s)"

definition route_tool :: "string \<Rightarrow> string option \<Rightarrow> string \<times> string" where
  "route_tool raw q =
     (if has_dot raw
      then (let parts = js_split (CHR ''.'') raw
            in (toLowerCase (hd parts), js_join ''.'' (tl parts)))
      else (case q of
              None \<Rightarrow> (''xero'', raw)
            | Some v \<Rightarrow> if v = [] then (''xero'', raw) else (toLowerCase v, raw)))"

definition post_tool :: "string \<Rightarrow> string option \<Rightarrow> json option \<Rightarrow> prog" where
  "post_tool raw q body =
     (let args = tool_args body;
          (providerKey, resolvedName) = route_tool raw q
      in if providerKey = ''all''
         then Respond 400 (error_body (- 32602) ''provider=all not supported for tools/call'')
         else (case providers providerKey of
                 Missing \<Rightarrow>
                   Respond 400 (error_body (- 32602) (''Unknown provider: '' @ providerKey))
               | Inherited \<Rightarrow>
                   caught ''tool call failed'' ''providers[providerKey].init is not a function''
               | Provider p \<Rightarrow>
                   Init p (\<lambda>r. case r of
                     Inl e \<Rightarrow> caught ''tool call failed'' e
                   | Inr ok \<Rightarrow>
                       NextId (if providerKey = ''supabase'' then Supabase else Xero) (\<lambda>i.
                       Send p (call_request i resolvedName args) (\<lambda>r. case r of
                         Inl e \<Rightarrow> caught ''tool call failed'' e
                       | Inr result \<Rightarrow> Respond 200 result)))))"

subsection \<open>\<^verbatim>\<open>POST /supabase/tools/:toolName\<close> (lines 395 to 422)\<close>

text \<open>
  The \<^verbatim>\<open>catch\<close> block of the supabase routes answers \<^verbatim>\<open>{ error: error.message }\<close>.
  \<^verbatim>\<open>req.body.arguments || {}\<close> is read after the \<^verbatim>\<open>await\<close> of the initialization, and
  throws when \<^verbatim>\<open>req.body\<close> is \<^verbatim>\<open>undefined\<close>.
\<close>

definition supabase_caught :: "string \<Rightarrow> prog" where
  "supabase_caught msg = Respond 500 (JObj [(''error'', JStr msg)])"

definition post_supabase_tool :: "string \<Rightarrow> json option \<Rightarrow> prog" where
  "post_supabase_tool toolName body =
     Init Supabase (\<lambda>r. case r of
       Inl e \<Rightarrow> supabase_caught e
     | Inr ok \<Rightarrow>
         (case body of
            None \<Rightarrow>
              supabase_caught ''Cannot read properties of undefined (reading 'arguments')''
          | Some b \<Rightarrow>
              if b = JNull
              then supabase_caught ''Cannot read properties of null (reading 'arguments')''
              else (let toolArguments =
                          (case get_prop ''arguments'' b of
                             None \<Rightarrow> JObj []
                           | Some a \<Rightarrow> if truthy a then a else JObj [])
                    in NextId Supabase (\<lambda>i.
                       Send Supabase (call_request i toolName toolArguments) (\<lambda>r. case r of
                         Inl e \<Rightarrow> supabase_caught e
                       | Inr response \<Rightarrow> Respond 200 response)))))"

subsection \<open>\<^verbatim>\<open>GET /supabase/tools\<close> and \<^verbatim>\<open>POST /supabase/mcp\<close> (lines 377 to 392, 425 to 440)\<close>

definition get_supabase_tools :: prog where
  "get_supabase_tools =
     Init Supabase (\<lambda>r. case r of
       Inl e \<Rightarrow> supabase_caught e
     | Inr ok \<Rightarrow>
         NextId Supabase (\<lambda>i.
         Send Supabase (JObj [jsonrpc, (''id'', JNum i), (''method'', JStr ''tools/list'')])
           (\<lambda>r. case r of
              Inl e \<Rightarrow> supabase_caught e
            | Inr response \<Rightarrow> Respond 200 response)))"

text \<open>
  \<^verbatim>\<open>{ jsonrpc: "2.0", id: supabaseMessageId++, ...req.body }\<close>: the properties of the
  body are written over the two the bridge sets.
\<close>

definition supabase_mcp_message :: "int \<Rightarrow> json option \<Rightarrow> json" where
  "supabase_mcp_message i body =
     JObj (foldl (\<lambda>kvs (k, v). obj_set k v kvs) [jsonrpc, (''id'', JNum i)]
             (case body of None \<Rightarrow> [] | Some b \<Rightarrow> spread b))"

definition post_supabase_mcp :: "json option \<Rightarrow> prog" where
  "post_supabase_mcp body =
     Init Supabase (\<lambda>r. case r of
       Inl e \<Rightarrow> supabase_caught e
     | Inr ok \<Rightarrow>
         NextId Supabase (\<lambda>i.
         Send Supabase (supabase_mcp_message i body) (\<lambda>r. case r of
           Inl e \<Rightarrow> supabase_caught e
         | Inr response \<Rightarrow> Respond 200 response)))"

subsection \<open>\<^verbatim>\<open>POST /mcp\<close> (lines 492 to 539)\<close>

text \<open>\<^verbatim>\<open>const msg = (req.body || {})\<close>.\<close>

definition mcp_msg :: "json option \<Rightarrow> json" where
  "mcp_msg body = (case body of None \<Rightarrow> JObj [] | Some b \<Rightarrow> if truthy b then b else JObj [])"

text \<open>A query parameter that is truthy, that is, present and not empty.\<close>

definition given :: "string option \<Rightarrow> string option" where
  "given q = (case q of None \<Rightarrow> None | Some v \<Rightarrow> if v = [] then None else Some v)"

text \<open>\<^verbatim>\<open>msg?.params?.provider\<close>, when it is truthy.\<close>

definition body_provider :: "json \<Rightarrow> json option" where
  "body_provider msg =
     (case opt_prop ''provider'' (opt_prop ''params'' (Some msg)) of
        None \<Rightarrow> None
      | Some v \<Rightarrow> if truthy v then Some v else None)"

text \<open>\<^verbatim>\<open>msg.params.name = rest.join('.')\<close>.\<close>

definition set_params_name :: "string \<Rightarrow> json \<Rightarrow> json" where
  "set_params_name name msg =
     (case msg of
        JObj kvs \<Rightarrow>
          (case map_of kvs ''params'' of
             Some (JObj ps) \<Rightarrow> JObj (obj_set ''params'' (JObj (obj_set ''name'' (JStr name) ps)) kvs)
           | _ \<Rightarrow> msg)
      | _ \<Rightarrow> msg)"

text \<open>
  What the routing part of the handler (lines 500 to 527) decides: it throws, it takes
  the fan-out branch, or it names a provider key and the message to forward.
\<close>

datatype mcp_route = Thrown string | FanOut | Target string json

definition route_mcp :: "string option \<Rightarrow> json \<Rightarrow> mcp_route" where
  "route_mcp q msg =
     (let method = opt_prop ''method'' (Some msg);
          by_query = (case given q of None \<Rightarrow> ''xero'' | Some v \<Rightarrow> toLowerCase v);
          by_hint =
            (case body_provider msg of
               Some v \<Rightarrow>
                 (case js_String v of
                    None \<Rightarrow> Thrown ''Cannot convert object to primitive value''
                  | Some s \<Rightarrow> Target (toLowerCase s) msg)
             | None \<Rightarrow> Target by_query msg)
      in if method = Some (JStr ''tools/call'')
         then (case opt_prop ''name'' (opt_prop ''params'' (Some msg)) of
                 Some (JStr name) \<Rightarrow>
                   if has_dot name
                   then (let parts = js_split (CHR ''.'') name
                         in Target (toLowerCase (hd parts))
                              (set_params_name (js_join ''.'' (tl parts)) msg))
                   else by_hint
               | _ \<Rightarrow> by_hint)
         else if method = Some (JStr ''tools/list'')
         then (case (case body_provider msg of
                       Some v \<Rightarrow> js_String v
                     | None \<Rightarrow> Some (case given q of None \<Rightarrow> ''xero'' | Some v \<Rightarrow> v)) of
                 None \<Rightarrow> Thrown ''(intermediate value).toString is not a function''
               | Some w \<Rightarrow>
                   (let want = toLowerCase w
                    in if want = ''all'' then FanOut
                       else Target (if want = ''supabase'' then ''supabase'' else ''xero'') msg))
         else Target by_query msg)"

definition post_mcp :: "string option \<Rightarrow> json option \<Rightarrow> prog" where
  "post_mcp q body =
     (case route_mcp q (mcp_msg body) of
        Thrown e \<Rightarrow> caught ''mcp error'' e
      | FanOut \<Rightarrow>
          InitAll (\<lambda>r. case r of
            Inl e \<Rightarrow> caught ''mcp error'' e
          | Inr ok \<Rightarrow>
              NextId Xero (\<lambda>i. Send Xero (list_request i) (\<lambda>r. case r of
                Inl e \<Rightarrow> caught ''mcp error'' e
              | Inr x \<Rightarrow>
                  NextId Supabase (\<lambda>j. Send Supabase (list_request j) (\<lambda>r. case r of
                    Inl e \<Rightarrow> caught ''mcp error'' e
                  | Inr s \<Rightarrow>
                      (case map_tools True ''xero'' (tools_of x) of
                         Inl e \<Rightarrow> caught ''mcp error'' e
                       | Inr xTools \<Rightarrow>
                           (case map_tools True ''supabase'' (tools_of s) of
                              Inl e \<Rightarrow> caught ''mcp error'' e
                            | Inr sTools \<Rightarrow>
                                Respond 200 (tools_body (xTools @ sTools)))))))))
      | Target providerKey msg \<Rightarrow>
          (case providers providerKey of
             Missing \<Rightarrow> Respond 400 (error_body (- 32602) (''Unknown provider: '' @ providerKey))
           | Inherited \<Rightarrow> caught ''mcp error'' ''providers[providerKey].init is not a function''
           | Provider p \<Rightarrow>
               Init p (\<lambda>r. case r of
                 Inl e \<Rightarrow> caught ''mcp error'' e
               | Inr ok \<Rightarrow>
                   Send p msg (\<lambda>r. case r of
                     Inl e \<Rightarrow> caught ''mcp error'' e
                   | Inr out \<Rightarrow> Respond 200 out))))"

text \<open>
  The routes that talk to a child.  (\<^verbatim>\<open>GET /health\<close> only calls the two \<^verbatim>\<open>init\<close>
  functions and reports the state of the process variables; it is not modelled.)
\<close>

datatype request =
    GetTools "string option"
  | GetSupabaseTools
  | PostTool string "string option" "json option"
  | PostSupabaseTool string "json option"
  | PostSupabaseMcp "json option"
  | PostMcp "string option" "json option"

fun handler :: "request \<Rightarrow> prog" where
  "handler (GetTools q) = get_tools q"
| "handler GetSupabaseTools = get_supabase_tools"
| "handler (PostTool raw q body) = post_tool raw q body"
| "handler (PostSupabaseTool toolName body) = post_supabase_tool toolName body"
| "handler (PostSupabaseMcp body) = post_supabase_mcp body"
| "handler (PostMcp q body) = post_mcp q body"

section \<open>The bridge: processes, counters, suspended handlers\<close>

text \<open>
  The environment variables from which \<^verbatim>\<open>initSupabaseServer\<close> takes the command and
  its arguments (lines 154 and 155): \<open>None\<close> for a variable that is not set.
\<close>

record env =
  SUPABASE_MCP_BIN :: "string option"
  SUPABASE_MCP_ARGS :: "string option"

text \<open>
  The process-wide variables of the wrapper (lines 27, 28, 145, 146) and what the model
  observes of a run: how often \<^verbatim>\<open>spawn\<close> was called, every message written to the
  standard input of a child, the handlers that are suspended at an \<^verbatim>\<open>await\<close>, and the
  HTTP responses sent.  A message is recorded with the child as it was at that moment
  and with who wrote it: an \<^verbatim>\<open>init\<close> function its \<^verbatim>\<open>initialize\<close> message, or the handler
  (by its number, the requests counted from 0 as they arrive) that called \<^verbatim>\<open>send\<close>.
\<close>

record child =
  pid :: nat
  exited :: bool

datatype origin = Handshake | Handler nat

text \<open>The promise a suspended handler awaits.\<close>

datatype awaited = InitOf pkey | InitOfAll | CallOf pkey json

datatype task =
    Waiting awaited "string + json \<Rightarrow> prog"
  | Ready prog
  | Finished

record bridge =
  environment :: env
  mcpServerProcess :: "child option"
  messageId :: int
  supabaseProcess :: "child option"
  supabaseMessageId :: int
  spawned :: nat
  wire :: "(pkey \<times> child \<times> json \<times> origin) list"
  tasks :: "task list"
  responses :: "(nat \<times> nat \<times> json) list"

definition start :: "env \<Rightarrow> bridge" where
  "start e = \<lparr>environment = e, mcpServerProcess = None, messageId = 1, supabaseProcess = None,
              supabaseMessageId = 1, spawned = 0, wire = [], tasks = [], responses = []\<rparr>"

text \<open>The wrapper as it starts in an environment that names the supabase command.\<close>

definition configured :: env where
  "configured = \<lparr>SUPABASE_MCP_BIN = Some ''npx'',
                  SUPABASE_MCP_ARGS = Some ''-y @supabase/mcp-server-supabase@latest''\<rparr>"

definition boot :: bridge where
  "boot = start configured"

text \<open>
  \<^verbatim>\<open>n++\<close> on a JavaScript number that holds an integer: exact below \<open>2^53 = 9007199254740992\<close>,
  where the next integer is no longer a double and the sum rounds back.
\<close>

definition post_incr :: "int \<Rightarrow> int" where
  "post_incr n = (if n < 9007199254740992 then n + 1 else n)"

fun process :: "pkey \<Rightarrow> bridge \<Rightarrow> child option" where
  "process Xero s = mcpServerProcess s"
| "process Supabase s = supabaseProcess s"

fun counter :: "pkey \<Rightarrow> bridge \<Rightarrow> int" where
  "counter Xero s = messageId s"
| "counter Supabase s = supabaseMessageId s"

fun bump :: "pkey \<Rightarrow> bridge \<Rightarrow> bridge" where
  "bump Xero s = s\<lparr>messageId := post_incr (messageId s)\<rparr>"
| "bump Supabase s = s\<lparr>supabaseMessageId := post_incr (supabaseMessageId s)\<rparr>"

definition initMessage :: "int \<Rightarrow> json" where
  "initMessage i =
     JObj [jsonrpc, (''id'', JNum i), (''method'', JStr ''initialize''),
           (''params'', JObj [(''protocolVersion'', JStr ''2024-11-05''),
                              (''capabilities'', JObj [(''tools'', JObj [])]),
                              (''clientInfo'', JObj [(''name'', JStr ''http-wrapper''),
                                                     (''version'', JStr ''1.0.0'')])])]"

text \<open>
  \<^verbatim>\<open>initMCPServer\<close> (lines 31 to 107) up to the point where it returns its promise: the
  new state, and how the promise is settled already, if it is.
\<close>

definition initMCPServer :: "bridge \<Rightarrow> bridge \<times> (string + json) option" where
  "initMCPServer s =
     (case mcpServerProcess s of
        Some c \<Rightarrow> (s, Some (Inr (JBool True)))
      | None \<Rightarrow>
          (let c = \<lparr>pid = spawned s, exited = False\<rparr>
           in (s\<lparr>mcpServerProcess := Some c,
                 spawned := spawned s + 1,
                 messageId := post_incr (messageId s),
                 wire := wire s @ [(Xero, c, initMessage (messageId s), Handshake)]\<rparr>, None)))"

text \<open>
  \<^verbatim>\<open>initSupabaseServer\<close> (lines 148 to 260), likewise, on a platform other than
  \<^verbatim>\<open>win32\<close>.  The executor of its promise throws, and so the promise is rejected with
  nothing spawned and no id drawn, in three cases.  When \<^verbatim>\<open>SUPABASE_MCP_ARGS\<close> is not set
  or empty, line 158 reads \<^verbatim>\<open>defaultArgs\<close>, which is declared nowhere.  When
  \<^verbatim>\<open>SUPABASE_MCP_BIN\<close> is not set or empty, \<^verbatim>\<open>spawn\<close> refuses the command.  The texts
  of the errors are the runtime's.  Otherwise the arguments are split at white space and
  completed (lines 156 to 176); the model does not record them.
\<close>

definition spawn_refuses :: "string option \<Rightarrow> string option" where
  \<open>spawn_refuses bin =
     (case bin of
        None \<Rightarrow> Some ''The "file" argument must be of type string. Received undefined''
      | Some file \<Rightarrow>
          if file = []
          then Some (''The argument 'file' cannot be empty. Received '' @ [CHR 0x27, CHR 0x27])
          else None)\<close>

definition initSupabaseServer :: "bridge \<Rightarrow> bridge \<times> (string + json) option" where
  "initSupabaseServer s =
     (case supabaseProcess s of
        Some c \<Rightarrow> (s, Some (Inr (JBool True)))
      | None \<Rightarrow>
          (case SUPABASE_MCP_ARGS (environment s) of
             None \<Rightarrow> (s, Some (Inl ''defaultArgs is not defined''))
           | Some rawArgs \<Rightarrow>
               if rawArgs = [] then (s, Some (Inl ''defaultArgs is not defined''))
               else (case spawn_refuses (SUPABASE_MCP_BIN (environment s)) of
                       Some e \<Rightarrow> (s, Some (Inl e))
                     | None \<Rightarrow>
                         (let c = \<lparr>pid = spawned s, exited = False\<rparr>
                          in (s\<lparr>supabaseProcess := Some c,
                                spawned := spawned s + 1,
                                supabaseMessageId := post_incr (supabaseMessageId s),
                                wire := wire s @ [(Supabase, c, initMessage (supabaseMessageId s),
                                                  Handshake)]\<rparr>, None)))))"

text \<open>
  \<^verbatim>\<open>sendMCPMessage\<close> (lines 110 to 142) up to the point where it returns its promise;
  \<open>t\<close> is the number of the handler that calls it.
\<close>

definition sendMCPMessage :: "nat \<Rightarrow> json \<Rightarrow> bridge \<Rightarrow> bridge \<times> (string + json) option" where
  "sendMCPMessage t msg s =
     (case mcpServerProcess s of
        None \<Rightarrow> (s, Some (Inl ''MCP server not running''))
      | Some c \<Rightarrow> (s\<lparr>wire := wire s @ [(Xero, c, msg, Handler t)]\<rparr>, None))"

text \<open>\<^verbatim>\<open>sendSupabaseMessage\<close> (lines 262 to 302), likewise.\<close>

definition sendSupabaseMessage :: "nat \<Rightarrow> json \<Rightarrow> bridge \<Rightarrow> bridge \<times> (string + json) option" where
  "sendSupabaseMessage t msg s =
     (case supabaseProcess s of
        None \<Rightarrow> (s, Some (Inl ''Supabase server not running''))
      | Some c \<Rightarrow> (s\<lparr>wire := wire s @ [(Supabase, c, msg, Handler t)]\<rparr>, None))"

text \<open>The registry's \<^verbatim>\<open>init\<close> and \<^verbatim>\<open>send\<close> of a provider.\<close>

fun init :: "pkey \<Rightarrow> bridge \<Rightarrow> bridge \<times> (string + json) option" where
  "init Xero s = initMCPServer s"
| "init Supabase s = initSupabaseServer s"

fun send :: "pkey \<Rightarrow> nat \<Rightarrow> json \<Rightarrow> bridge \<Rightarrow> bridge \<times> (string + json) option" where
  "send Xero t msg s = sendMCPMessage t msg s"
| "send Supabase t msg s = sendSupabaseMessage t msg s"

text \<open>
  A handler that reaches an \<^verbatim>\<open>await\<close> is suspended: on a settled promise it is ready to
  continue, on a pending one it waits for the promise to settle.
\<close>

definition suspend :: "nat \<Rightarrow> awaited \<Rightarrow> (string + json \<Rightarrow> prog) \<Rightarrow> bridge \<times> (string + json) option
    \<Rightarrow> bridge" where
  "suspend t a k r =
     (case r of
        (s, None) \<Rightarrow> s\<lparr>tasks := (tasks s)[t := Waiting a k]\<rparr>
      | (s, Some v) \<Rightarrow> s\<lparr>tasks := (tasks s)[t := Ready (k v)]\<rparr>)"

text \<open>
  \<^verbatim>\<open>Promise.all([providers.xero.init(), providers.supabase.init()])\<close>: both are called,
  in this order; the result is rejected already when one of them is, and resolved
  already when both are.
\<close>

definition all_settled :: "(string + json) option \<Rightarrow> (string + json) option
    \<Rightarrow> (string + json) option" where
  "all_settled r1 r2 =
     (case r1 of
        Some (Inl e) \<Rightarrow> Some (Inl e)
      | Some (Inr a) \<Rightarrow>
          (case r2 of
             Some (Inl e) \<Rightarrow> Some (Inl e)
           | Some (Inr b) \<Rightarrow> Some (Inr (JArr [a, b]))
           | None \<Rightarrow> None)
      | None \<Rightarrow> (case r2 of Some (Inl e) \<Rightarrow> Some (Inl e) | _ \<Rightarrow> None))"

definition init_all :: "bridge \<Rightarrow> bridge \<times> (string + json) option" where
  "init_all s =
     (case initMCPServer s of (s1, r1) \<Rightarrow>
       (case initSupabaseServer s1 of (s2, r2) \<Rightarrow> (s2, all_settled r1 r2)))"

text \<open>Handler number \<open>t\<close> runs until it responds or reaches its next \<^verbatim>\<open>await\<close>.\<close>

primrec advance :: "prog \<Rightarrow> nat \<Rightarrow> bridge \<Rightarrow> bridge" where
  "advance (Respond status body) =
     (\<lambda>t s. s\<lparr>tasks := (tasks s)[t := Finished],
              responses := responses s @ [(t, status, body)]\<rparr>)"
| "advance (Init p k) = (\<lambda>t s. suspend t (InitOf p) k (init p s))"
| "advance (InitAll k) = (\<lambda>t s. suspend t InitOfAll k (init_all s))"
| "advance (NextId p k) = (\<lambda>t s. advance (k (counter p s)) t (bump p s))"
| "advance (Send p msg k) = (\<lambda>t s. suspend t (CallOf p msg) k (send p t msg s))"

text \<open>
  What happens to the bridge: a request arrives; a pending promise settles (by a frame
  or by its timer, see the listeners above); the event loop continues a handler whose
  promise has settled; a child exits or fails to spawn (the handlers of lines 86 to 91
  only log, those of lines 203 to 210 also clear \<^verbatim>\<open>supabaseProcess\<close>).
\<close>

datatype event =
    Request request
  | Settle nat "string + json"
  | Resume nat
  | Exit pkey
  | SpawnError pkey

fun lifecycle :: "pkey \<Rightarrow> bridge \<Rightarrow> bridge" where
  "lifecycle Xero s = s\<lparr>mcpServerProcess := map_option (\<lambda>c. c\<lparr>exited := True\<rparr>) (mcpServerProcess s)\<rparr>"
| "lifecycle Supabase s = s\<lparr>supabaseProcess := None\<rparr>"

fun step :: "event \<Rightarrow> bridge \<Rightarrow> bridge" where
  "step (Request r) s =
     advance (handler r) (length (tasks s)) (s\<lparr>tasks := tasks s @ [Finished]\<rparr>)"
| "step (Settle t v) s =
     (if t < length (tasks s)
      then (case tasks s ! t of
              Waiting a k \<Rightarrow> s\<lparr>tasks := (tasks s)[t := Ready (k v)]\<rparr>
            | _ \<Rightarrow> s)
      else s)"
| "step (Resume t) s =
     (if t < length (tasks s)
      then (case tasks s ! t of Ready p \<Rightarrow> advance p t s | _ \<Rightarrow> s)
      else s)"
| "step (Exit p) s = lifecycle p s"
| "step (SpawnError p) s = lifecycle p s"

fun run :: "event list \<Rightarrow> bridge \<Rightarrow> bridge" where
  "run [] s = s"
| "run (e # es) s = run es (step e s)"

subsection \<open>Observations of a run\<close>

text \<open>The promise a handler is waiting for, if it waits.\<close>

fun awaiting :: "task \<Rightarrow> awaited option" where
  "awaiting (Waiting a k) = Some a"
| "awaiting t = None"

text \<open>The ids of the messages written to a provider's children, oldest first.\<close>

definition wire_ids :: "pkey \<Rightarrow> bridge \<Rightarrow> json option list" where
  "wire_ids p s =
     map (\<lambda>(q, c, m, w). get_prop ''id'' m) (filter (\<lambda>(q, c, m, w). q = p) (wire s))"

text \<open>
  Every event but a request that passes a client's id on: a \<^verbatim>\<open>POST /mcp\<close> request that
  forwards the client's message to a provider (the last lines of the handler, 533 to
  535), and a \<^verbatim>\<open>POST /supabase/mcp\<close> request whose body has an \<^verbatim>\<open>id\<close> of its own.
\<close>

fun no_pass_through :: "event \<Rightarrow> bool" where
  "no_pass_through (Request (PostMcp q body)) =
     (case route_mcp q (mcp_msg body) of
        Target key msg \<Rightarrow> (case providers key of Provider p \<Rightarrow> False | _ \<Rightarrow> True)
      | _ \<Rightarrow> True)"
| "no_pass_through (Request (PostSupabaseMcp body)) =
     (''id'' \<notin> set (map fst (case body of None \<Rightarrow> [] | Some b \<Rightarrow> spread b)))"
| "no_pass_through e = True"

text \<open>The requests of a run, in the order of their arrival: request \<open>t\<close> has handler \<open>t\<close>.\<close>

fun requests :: "event list \<Rightarrow> request list" where
  "requests [] = []"
| "requests (Request r # es) = r # requests es"
| "requests (e # es) = requests es"

text \<open>
  A message that the bridge built itself, among the requests \<open>rs\<close>: the handshake of an
  \<^verbatim>\<open>init\<close> function, or a message sent by a handler that passes no client's id on.
\<close>

fun bridge_built :: "request list \<Rightarrow> origin \<Rightarrow> bool" where
  "bridge_built rs Handshake = True"
| "bridge_built rs (Handler t) = (t < length rs \<and> no_pass_through (Request (rs ! t)))"

text \<open>The ids of the messages to a provider's children that the bridge built, oldest first.\<close>

definition built_ids :: "request list \<Rightarrow> pkey \<Rightarrow> bridge \<Rightarrow> json option list" where
  "built_ids rs p s =
     map (\<lambda>(q, c, m, w). get_prop ''id'' m)
       (filter (\<lambda>(q, c, m, w). q = p \<and> bridge_built rs w) (wire s))"

text \<open>A child's exit and a failed spawn, as opposed to requests and promises.\<close>

fun is_lifecycle :: "event \<Rightarrow> bool" where
  "is_lifecycle (Exit p) = True"
| "is_lifecycle (SpawnError p) = True"
| "is_lifecycle e = False"

text \<open>
  A handler all of whose requests carry a freshly drawn id: every \<^verbatim>\<open>send\<close> follows,
  with no \<^verbatim>\<open>await\<close> in between, a draw from the counter of the same provider, and the
  message carries the id drawn.
\<close>

inductive disciplined :: "prog \<Rightarrow> bool" where
  d_Respond: "disciplined (Respond status body)"
| d_Init: "(\<And>r. disciplined (k r)) \<Longrightarrow> disciplined (Init p k)"
| d_InitAll: "(\<And>r. disciplined (k r)) \<Longrightarrow> disciplined (InitAll k)"
| d_Call: "(\<And>i. get_prop ''id'' (mk i) = Some (JNum i)) \<Longrightarrow> (\<And>i r. disciplined (k i r))
     \<Longrightarrow> disciplined (NextId p (\<lambda>i. Send p (mk i) (k i)))"

subsection \<open>A handler run to its response\<close>

text \<open>
  How the promises of one handler settle: \<^verbatim>\<open>init\<close> of a provider, the \<^verbatim>\<open>Promise.all\<close> of
  both, and \<^verbatim>\<open>send\<close> of a message to a provider.
\<close>

record answers =
  init_answer :: "pkey \<Rightarrow> string + json"
  init_all_answer :: "string + json"
  send_answer :: "pkey \<Rightarrow> json \<Rightarrow> string + json"

text \<open>
  The messages a handler passes to \<^verbatim>\<open>send\<close> and the response it gives, when its promises
  settle as \<open>a\<close> says and the counters start at \<open>c\<close>.
\<close>

primrec execute :: "prog \<Rightarrow> answers \<Rightarrow> (pkey \<Rightarrow> int) \<Rightarrow> (pkey \<times> json) list \<times> nat \<times> json" where
  "execute (Respond status body) = (\<lambda>a c. ([], status, body))"
| "execute (Init p k) = (\<lambda>a c. execute (k (init_answer a p)) a c)"
| "execute (InitAll k) = (\<lambda>a c. execute (k (init_all_answer a)) a c)"
| "execute (NextId p k) = (\<lambda>a c. execute (k (c p)) a (c(p := post_incr (c p))))"
| "execute (Send p msg k) =
     (\<lambda>a c. case execute (k (send_answer a p msg)) a c of
               (sent, response) \<Rightarrow> ((p, msg) # sent, response))"

text \<open>
  A tool descriptor as a provider lists it, an object with a string \<^verbatim>\<open>name\<close>, and the
  same descriptor under the name \<^verbatim>\<open>key.name\<close>.
\<close>

fun tool_name :: "json \<Rightarrow> string option" where
  "tool_name (JObj kvs) = (case map_of kvs ''name'' of Some (JStr n) \<Rightarrow> Some n | _ \<Rightarrow> None)"
| "tool_name t = None"

definition namespaced :: "string \<Rightarrow> json \<Rightarrow> json" where
  "namespaced key t =
     (case t of
        JObj kvs \<Rightarrow>
          (case tool_name t of
             Some n \<Rightarrow> JObj (obj_set ''name'' (JStr (key @ ''.'' @ n)) kvs)
           | None \<Rightarrow> t)
      | _ \<Rightarrow> t)"


subsection \<open>The invariant of the ids\<close>

text \<open>
  Among the requests \<open>rs\<close> received so far, the ids of the messages that the bridge
  built for provider \<open>p\<close> are numbers below the provider's counter, in increasing
  order.  This holds as long as the counter has not reached \<open>2^53\<close>; every suspended
  handler that passes no client's id on is disciplined, and every message of a handler
  is recorded under the number of a request received.
\<close>

definition increasing_ids :: "request list \<Rightarrow> pkey \<Rightarrow> bridge \<Rightarrow> bool" where
  "increasing_ids rs p s \<longleftrightarrow>
     (\<exists>ns. built_ids rs p s = map (\<lambda>n. Some (JNum n)) ns \<and> sorted_wrt (<) ns
           \<and> (\<forall>n \<in> set ns. n < counter p s))"

definition ids_inv :: "request list \<Rightarrow> pkey \<Rightarrow> bridge \<Rightarrow> bool" where
  "ids_inv rs p s \<longleftrightarrow> (counter p s < 9007199254740992 \<longrightarrow> increasing_ids rs p s)"

fun task_ok :: "task \<Rightarrow> bool" where
  "task_ok (Waiting a k) = (\<forall>r. disciplined (k r))"
| "task_ok (Ready p) = disciplined p"
| "task_ok Finished = True"

definition tasks_ok :: "request list \<Rightarrow> task list \<Rightarrow> bool" where
  "tasks_ok rs ts \<longleftrightarrow>
     length ts = length rs
     \<and> (\<forall>t < length rs. no_pass_through (Request (rs ! t)) \<longrightarrow> task_ok (ts ! t))"

fun known :: "request list \<Rightarrow> origin \<Rightarrow> bool" where
  "known rs Handshake = True"
| "known rs (Handler t) = (t < length rs)"

definition wire_inv :: "request list \<Rightarrow> bridge \<Rightarrow> bool" where
  "wire_inv rs s \<longleftrightarrow>
     ids_inv rs Xero s \<and> ids_inv rs Supabase s
     \<and> (\<forall>(q, c, m, w) \<in> set (wire s). known rs w)"

definition bridge_inv :: "request list \<Rightarrow> bridge \<Rightarrow> bool" where
  "bridge_inv rs s \<longleftrightarrow> wire_inv rs s \<and> tasks_ok rs (tasks s)"

section \<open>Properties\<close>

subsection \<open>Id correlation\<close>

lemma supabase_scan_matches_id:
  "supabase_scan parse expectedId lines = Some v \<Longrightarrow> \<not> loosely_null expectedId
   \<Longrightarrow> strict_eq (get_prop ''id'' v) expectedId"
  by (induction lines) (auto simp: Let_def split: if_splits option.splits)

text \<open>
  C1.  Two calls with the ids 2 and 3 are pending on the xero child, and the child
  answers the second one first.  \<^verbatim>\<open>onData\<close> of \<^verbatim>\<open>sendMCPMessage\<close> never looks at an id:
  both promises resolve with the frame whose id is 3, so the call with the id 2 gets a
  frame that is not its own.
\<close>

theorem xero_concurrent_calls_share_first_frame:
  \<open>xero_emit JSON_parse ''{"jsonrpc":"2.0","id":3,"result":{}}\<newline>''
      [new_call (list_request 2), new_call (list_request 3)]
   = Inr [\<lparr>buffer = [], attached = False,
           promise = Fulfilled (JObj [(''jsonrpc'', JStr ''2.0''), (''id'', JNum 3),
                                      (''result'', JObj [])]),
           message = list_request 2\<rparr>,
          \<lparr>buffer = [], attached = False,
           promise = Fulfilled (JObj [(''jsonrpc'', JStr ''2.0''), (''id'', JNum 3),
                                      (''result'', JObj [])]),
           message = list_request 3\<rparr>]\<close>
  by code_simp

text \<open>
  The same two calls on the supabase child: \<^verbatim>\<open>onData\<close> of \<^verbatim>\<open>sendSupabaseMessage\<close> leaves
  the call with the id 2 pending.
\<close>

lemma supabase_concurrent_calls_match_ids:
  \<open>supabase_emit JSON_parse True ''{"jsonrpc":"2.0","id":3,"result":{}}\<newline>''
      [new_call (list_request 2), new_call (list_request 3)]
   = Inr [new_call (list_request 2),
          \<lparr>buffer = [], attached = False,
           promise = Fulfilled (JObj [(''jsonrpc'', JStr ''2.0''), (''id'', JNum 3),
                                      (''result'', JObj [])]),
           message = list_request 3\<rparr>]\<close>
  by code_simp

subsection \<open>Chunk boundaries and log lines\<close>

text \<open>
  C3.  One response frame for the call with the id 2 on the xero child.  Delivered in one
  chunk it resolves the call; delivered in two chunks, or after a log line of the child
  (\<^verbatim>\<open>src/index.ts\<close> prints such lines on its standard output), \<^verbatim>\<open>JSON.parse\<close> throws
  inside the listener and nothing catches it.
\<close>

theorem xero_decoding_depends_on_chunking:
  \<open>feed (xero_emit JSON_parse) [''{"jsonrpc":"2.0","id":2,"result":{}}\<newline>'']
      [new_call (list_request 2)]
   = Inr [\<lparr>buffer = [], attached = False,
           promise = Fulfilled (JObj [(''jsonrpc'', JStr ''2.0''), (''id'', JNum 2),
                                      (''result'', JObj [])]),
           message = list_request 2\<rparr>]
   \<and> feed (xero_emit JSON_parse) [''{"jsonrpc":"2.0",'', ''"id":2,"result":{}}\<newline>'']
      [new_call (list_request 2)] = Inl UncaughtSyntaxError
   \<and> feed (xero_emit JSON_parse)
      [''[XERO MCP] Starting server...\<newline>'', ''{"jsonrpc":"2.0","id":2,"result":{}}\<newline>'']
      [new_call (list_request 2)] = Inl UncaughtSyntaxError\<close>
  by code_simp

text \<open>
  Supabase's \<^verbatim>\<open>onData\<close> does what C1 and C3 say.  However the stream is cut into chunks,
  every one of the calls pending on it resolves with the first complete line of the
  whole stream that decodes to a frame of its own id, and stays pending when there is
  none; lines that are no JSON are skipped.
\<close>

lemma js_split_not_Nil: "js_split sep s \<noteq> []"
  by (induction s) (auto split: list.splits)

lemma js_split_append:
  "js_split sep (a @ b)
     = butlast (js_split sep a) @ js_split sep (last (js_split sep a) @ b)"
proof (induction a)
  case Nil
  then show ?case by simp
next
  case (Cons c cs)
  obtain l ls where s: "js_split sep cs = l # ls"
    using js_split_not_Nil [of sep cs] by (cases "js_split sep cs") auto
  show ?case
  proof (cases "c = sep")
    case True
    then show ?thesis
      using Cons s by simp
  next
    case False
    show ?thesis
    proof (cases ls)
      case Nil
      then show ?thesis
        using Cons s False by simp
    next
      case (Cons l' ls')
      then show ?thesis
        using Cons.IH s False by simp
    qed
  qed
qed

lemma butlast_js_split_append:
  "butlast (js_split sep (a @ b))
     = butlast (js_split sep a) @ butlast (js_split sep (last (js_split sep a) @ b))"
  by (simp add: js_split_append [of sep a b] butlast_append js_split_not_Nil)

lemma last_js_split_append:
  "last (js_split sep (a @ b)) = last (js_split sep (last (js_split sep a) @ b))"
  by (simp add: js_split_append [of sep a b] js_split_not_Nil)

lemma supabase_scan_append:
  "supabase_scan parse e (xs @ ys)
     = (case supabase_scan parse e xs of Some v \<Rightarrow> Some v | None \<Rightarrow> supabase_scan parse e ys)"
  by (induction xs) (auto simp: Let_def split: option.splits)

lemma consumed_fresh: "consumed parse [] (new_call m) (new_call m)"
  by (simp add: consumed_def new_call_def)

lemma consumed_step:
  assumes "consumed parse stream c0 c"
  shows "\<exists>c'. (if attached c then supabase_onData parse True data c else Inr c) = Inr c'
             \<and> consumed parse (stream @ data) c0 c'"
proof (cases "supabase_scan parse (get_prop ''id'' (message c0))
                (butlast (js_split (CHR 0x0A) stream))")
  case (Some v)
  have b: "butlast (js_split (CHR 0x0A) (stream @ data))
             = butlast (js_split (CHR 0x0A) stream)
               @ butlast (js_split (CHR 0x0A) (last (js_split (CHR 0x0A) stream) @ data))"
    by (rule butlast_js_split_append)
  have "supabase_scan parse (get_prop ''id'' (message c0))
                (butlast (js_split (CHR 0x0A) (stream @ data))) = Some v"
    unfolding b using Some by (simp add: supabase_scan_append)
  then show ?thesis
    using assms Some by (simp add: consumed_def)
next
  case None
  then have c: "attached c" "promise c = Pending" "buffer c = last (js_split (CHR 0x0A) stream)"
      "message c = message c0"
    using assms by (simp_all add: consumed_def)
  have b: "butlast (js_split (CHR 0x0A) (stream @ data))
             = butlast (js_split (CHR 0x0A) stream)
               @ butlast (js_split (CHR 0x0A) (last (js_split (CHR 0x0A) stream) @ data))"
    by (rule butlast_js_split_append)
  have scan: "supabase_scan parse (get_prop ''id'' (message c0))
                (butlast (js_split (CHR 0x0A) (stream @ data)))
              = supabase_scan parse (get_prop ''id'' (message c0))
                  (butlast (js_split (CHR 0x0A) (buffer c @ data)))"
    unfolding b using None c(3) by (simp add: supabase_scan_append)
  have rest: "last (js_split (CHR 0x0A) (stream @ data))
                = last (js_split (CHR 0x0A) (buffer c @ data))"
    unfolding c(3) by (rule last_js_split_append)
  show ?thesis
  proof (cases "supabase_scan parse (get_prop ''id'' (message c0))
                  (butlast (js_split (CHR 0x0A) (buffer c @ data)))")
    case None
    then have "supabase_onData parse True data c
                 = Inr (c\<lparr>buffer := last (js_split (CHR 0x0A) (buffer c @ data))\<rparr>)"
      using c(4) by (simp add: supabase_onData_def Let_def)
    moreover have "consumed parse (stream @ data) c0
                     (c\<lparr>buffer := last (js_split (CHR 0x0A) (buffer c @ data))\<rparr>)"
      using None c scan rest by (simp add: consumed_def)
    ultimately show ?thesis
      using c(1) by simp
  next
    case (Some v)
    then have "supabase_onData parse True data c
                 = Inr (c\<lparr>buffer := last (js_split (CHR 0x0A) (buffer c @ data)),
                          attached := False, promise := Fulfilled v\<rparr>)"
      using c(2,4) by (simp add: supabase_onData_def Let_def)
    moreover have "consumed parse (stream @ data) c0
                     (c\<lparr>buffer := last (js_split (CHR 0x0A) (buffer c @ data)),
                        attached := False, promise := Fulfilled v\<rparr>)"
      using Some c scan by (simp add: consumed_def)
    ultimately show ?thesis
      using c(1) by simp
  qed
qed

lemma consumed_emit:
  assumes "list_all2 (consumed parse stream) cs0 cs"
  shows "\<exists>cs'. supabase_emit parse True data cs = Inr cs'
              \<and> list_all2 (consumed parse (stream @ data)) cs0 cs'"
  using assms unfolding supabase_emit_def
proof (induction cs0 cs rule: list_all2_induct)
  case Nil
  then show ?case by simp
next
  case (Cons c0 cs0 c cs)
  obtain c' where c': "(if attached c then supabase_onData parse True data c else Inr c) = Inr c'"
      "consumed parse (stream @ data) c0 c'"
    using consumed_step [OF Cons.hyps(1)] by blast
  obtain cs' where cs': "emit (supabase_onData parse True data) cs = Inr cs'"
      "list_all2 (consumed parse (stream @ data)) cs0 cs'"
    using Cons.IH by blast
  show ?case
  proof (cases "attached c")
    case True
    then have "emit (supabase_onData parse True data) (c # cs) = Inr (c' # cs')"
      using c'(1) cs'(1) by simp
    then show ?thesis
      using c'(2) cs'(2) by simp
  next
    case False
    then have "emit (supabase_onData parse True data) (c # cs) = Inr (c' # cs')"
      using c'(1) cs'(1) by simp
    then show ?thesis
      using c'(2) cs'(2) by simp
  qed
qed

lemma consumed_feed:
  assumes "list_all2 (consumed parse stream) cs0 cs"
  shows "\<exists>cs'. feed (supabase_emit parse True) chunks cs = Inr cs'
              \<and> list_all2 (consumed parse (stream @ concat chunks)) cs0 cs'"
  using assms
proof (induction chunks arbitrary: stream cs)
  case Nil
  then show ?case by simp
next
  case (Cons data chunks)
  obtain cs1 where 1: "supabase_emit parse True data cs = Inr cs1"
      "list_all2 (consumed parse (stream @ data)) cs0 cs1"
    using consumed_emit [OF Cons.prems] by blast
  obtain cs' where 2: "feed (supabase_emit parse True) chunks cs1 = Inr cs'"
      "list_all2 (consumed parse ((stream @ data) @ concat chunks)) cs0 cs'"
    using Cons.IH [OF 1(2)] by blast
  show ?case
    using 1 2 by simp
qed

lemma list_all2_map_eq:
  assumes "list_all2 P xs ys" and "\<And>x y. P x y \<Longrightarrow> f y = g x"
  shows "map f ys = map g xs"
  using assms by (induction rule: list_all2_induct) simp_all

lemma consumed_promise:
  assumes "consumed parse stream (new_call m) c"
  shows "promise c = (case supabase_scan parse (get_prop ''id'' m)
                              (butlast (js_split (CHR 0x0A) stream)) of
                         None \<Rightarrow> Pending
                       | Some v \<Rightarrow> Fulfilled v)"
proof (cases "supabase_scan parse (get_prop ''id'' m) (butlast (js_split (CHR 0x0A) stream))")
  case None
  then show ?thesis
    using assms by (simp add: consumed_def new_call_def)
next
  case (Some v)
  then show ?thesis
    using assms by (simp add: consumed_def new_call_def)
qed

lemma supabase_calls_decode_the_stream:
  "\<exists>cs'. feed (supabase_emit parse True) chunks (map new_call msgs) = Inr cs'
       \<and> map promise cs'
           = map (\<lambda>m. case supabase_scan parse (get_prop ''id'' m)
                              (butlast (js_split (CHR 0x0A) (concat chunks))) of
                         None \<Rightarrow> Pending
                       | Some v \<Rightarrow> Fulfilled v) msgs"
proof -
  have "list_all2 (consumed parse []) (map new_call msgs) (map new_call msgs)"
    by (induction msgs) (simp_all add: consumed_fresh)
  then obtain cs' where cs': "feed (supabase_emit parse True) chunks (map new_call msgs) = Inr cs'"
      "list_all2 (consumed parse ([] @ concat chunks)) (map new_call msgs) cs'"
    using consumed_feed by blast
  have "list_all2 (\<lambda>m c. consumed parse (concat chunks) (new_call m) c) msgs cs'"
    using cs'(2) by (simp add: list_all2_map1)
  then have "map promise cs'
           = map (\<lambda>m. case supabase_scan parse (get_prop ''id'' m)
                              (butlast (js_split (CHR 0x0A) (concat chunks))) of
                         None \<Rightarrow> Pending
                       | Some v \<Rightarrow> Fulfilled v) msgs"
    by (rule list_all2_map_eq) (rule consumed_promise)
  then show ?thesis
    using cs'(1) by blast
qed

subsection \<open>An error frame during initialization\<close>

lemma xero_init_scan_none:
  "(\<forall>line \<in> set ls. \<forall>v. parse line = Some v \<longrightarrow> \<not> has_result v) \<Longrightarrow> \<not> xero_init_scan parse ls"
  by (induction ls) (auto split: option.splits)

lemma supabase_init_scan_none:
  "(\<forall>raw \<in> set ls. \<forall>v. parse (js_trim raw) = Some v \<longrightarrow> \<not> has_result v)
   \<Longrightarrow> \<not> supabase_init_scan parse ls"
  by (induction ls) (auto simp: Let_def split: option.splits)

text \<open>
  C8, as stated, fails.  The child answers \<^verbatim>\<open>initialize\<close> with an error frame.  Neither
  \<^verbatim>\<open>onInitData\<close> rejects: the promise of the attempt is still pending and the listener
  is still registered.
\<close>

theorem init_error_frame_left_pending:
  \<open>xero_onInitData JSON_parse
      ''{"jsonrpc":"2.0","id":1,"error":{"code":-32603,"message":"boom"}}\<newline>'' new_listener
   = \<lparr>buffer = [], attached = True, promise = Pending\<rparr>
   \<and> supabase_onInitData JSON_parse True
      ''{"jsonrpc":"2.0","id":1,"error":{"code":-32603,"message":"boom"}}\<newline>'' new_listener
   = \<lparr>buffer = [], attached = True, promise = Pending\<rparr>\<close>
  by code_simp

text \<open>
  C8, amended.  During a session's initialization a chunk none of whose lines decodes to
  a value with a truthy \<^verbatim>\<open>result\<close> (an error frame is such a line) is ignored: xero's
  listener is unchanged, supabase's only moves its carry-over buffer.  The attempt then
  fails when its 10-second timer fires, with the timer's message.
\<close>

theorem init_ignores_frames_without_result:
  assumes xero: "\<forall>line \<in> set (js_split (CHR 0x0A) data).
                   \<forall>v. parse (js_trim line) = Some v \<longrightarrow> \<not> has_result v"
    and supabase: "\<forall>line \<in> set (js_split (CHR 0x0A) (buffer l @ data)).
                   \<forall>v. parse (js_trim line) = Some v \<longrightarrow> \<not> has_result v"
    and pending: "promise l = Pending"
  shows "xero_onInitData parse data l = l
       \<and> supabase_onInitData parse proc data l
           = l\<lparr>buffer := last (js_split (CHR 0x0A) (buffer l @ data))\<rparr>
       \<and> promise (xero_init_timeout proc' (xero_onInitData parse data l))
           = Rejected ''Timeout during initialization''
       \<and> promise (supabase_init_timeout proc' (supabase_onInitData parse proc data l))
           = Rejected ''Supabase MCP init timeout''"
proof -
  have "\<not> xero_init_scan parse (filter (\<lambda>x. x \<noteq> []) (map js_trim (js_split (CHR 0x0A) data)))"
    using xero by (intro xero_init_scan_none) auto
  then have x: "xero_onInitData parse data l = l"
    by (simp add: xero_onInitData_def)
  have "\<not> supabase_init_scan parse (butlast (js_split (CHR 0x0A) (buffer l @ data)))"
    using supabase by (intro supabase_init_scan_none) (auto dest: in_set_butlastD)
  then have s: "supabase_onInitData parse proc data l
                  = l\<lparr>buffer := last (js_split (CHR 0x0A) (buffer l @ data))\<rparr>"
    by (simp add: supabase_onInitData_def Let_def)
  show ?thesis
    using pending by (simp add: x s xero_init_timeout_def supabase_init_timeout_def Let_def)
qed

text \<open>The amended C8 at the error frame above, with \<open>JSON_parse\<close> and a fresh listener.\<close>

theorem init_ignores_frames_without_result_witness:
  \<open>xero_onInitData JSON_parse
      ''{"jsonrpc":"2.0","id":1,"error":{"code":-32603,"message":"boom"}}\<newline>'' new_listener
     = new_listener
   \<and> promise (xero_init_timeout True (xero_onInitData JSON_parse
      ''{"jsonrpc":"2.0","id":1,"error":{"code":-32603,"message":"boom"}}\<newline>'' new_listener))
     = Rejected ''Timeout during initialization''
   \<and> promise (supabase_init_timeout True (supabase_onInitData JSON_parse True
      ''{"jsonrpc":"2.0","id":1,"error":{"code":-32603,"message":"boom"}}\<newline>'' new_listener))
     = Rejected ''Supabase MCP init timeout''\<close>
proof -
  let ?data = \<open>''{"jsonrpc":"2.0","id":1,"error":{"code":-32603,"message":"boom"}}\<newline>''\<close>
  let ?line = \<open>''{"jsonrpc":"2.0","id":1,"error":{"code":-32603,"message":"boom"}}''\<close>
  have lines: "js_split (CHR 0x0A) ?data = [?line, []]"
    by code_simp
  have frame: "JSON_parse (js_trim ?line)
      = Some (JObj [(''jsonrpc'', JStr ''2.0''), (''id'', JNum 1),
                    (''error'', JObj [(''code'', JNum (- 32603)), (''message'', JStr ''boom'')])])"
    by code_simp
  have blank: "JSON_parse (js_trim []) = None"
    by code_simp
  have h: "\<forall>line \<in> set (js_split (CHR 0x0A) ?data).
             \<forall>v. JSON_parse (js_trim line) = Some v \<longrightarrow> \<not> has_result v"
    unfolding lines using frame blank by (auto simp: has_result_def)
  have b: "buffer new_listener @ ?data = ?data"
    by (simp add: new_listener_def)
  have h': "\<forall>line \<in> set (js_split (CHR 0x0A) (buffer new_listener @ ?data)).
             \<forall>v. JSON_parse (js_trim line) = Some v \<longrightarrow> \<not> has_result v"
    using h by (simp only: b)
  have p: "promise new_listener = Pending"
    by (simp add: new_listener_def)
  from init_ignores_frames_without_result [OF h h' p, of True True]
  show ?thesis
    by blast
qed

subsection \<open>A child that exits or fails to spawn while calls are pending\<close>

text \<open>
  C6, as stated, fails.  A first \<^verbatim>\<open>GET /tools\<close> spawns the xero child and waits for the
  handshake; a second one finds \<^verbatim>\<open>mcpServerProcess\<close> set and sends \<^verbatim>\<open>tools/list\<close>.  Then
  the spawn fails and the child is gone: both handlers still wait, for the handshake and
  for the call, and no request has been answered.  The same holds of a supabase call
  that is pending when the child exits.
\<close>

theorem exit_leaves_calls_pending:
  \<open>map awaiting (tasks (run [Request (GetTools None), Request (GetTools None), Resume 1,
                             SpawnError Xero, Exit Xero] boot))
     = [Some (InitOf Xero), Some (CallOf Xero (list_request 2))]
   \<and> responses (run [Request (GetTools None), Request (GetTools None), Resume 1,
                     SpawnError Xero, Exit Xero] boot) = []
   \<and> map awaiting (tasks (run [Request (PostSupabaseTool ''list_tables'' (Some (JObj []))),
                               Settle 0 (Inr (JBool True)), Resume 0,
                               Exit Supabase] boot))
     = [Some (CallOf Supabase (call_request 2 ''list_tables'' (JObj [])))]
   \<and> responses (run [Request (PostSupabaseTool ''list_tables'' (Some (JObj []))),
                     Settle 0 (Inr (JBool True)), Resume 0,
                     Exit Supabase] boot) = []\<close>
  by code_simp

lemma lifecycle_tasks: "tasks (lifecycle p s) = tasks s \<and> responses (lifecycle p s) = responses s"
  by (cases p) simp_all

text \<open>
  C6, amended.  When a provider's child exits or fails to spawn, the handlers of these
  events settle no pending call and answer no request: every suspended handler is as it
  was.  A pending xero call is rejected when its own 10-second timer fires, with
  \<^verbatim>\<open>Timeout waiting for response\<close>.
\<close>

theorem lifecycle_events_settle_nothing:
  assumes "\<forall>e \<in> set es. is_lifecycle e" and "promise c = Pending"
  shows "tasks (run es s) = tasks s \<and> responses (run es s) = responses s
       \<and> promise (xero_call_timeout c) = Rejected ''Timeout waiting for response''"
proof -
  have "tasks (run es s) = tasks s \<and> responses (run es s) = responses s"
    using assms(1)
  proof (induction es arbitrary: s)
    case Nil
    then show ?case by simp
  next
    case (Cons e es)
    then show ?case by (cases e) (simp_all add: lifecycle_tasks)
  qed
  then show ?thesis
    using assms(2) by (simp add: xero_call_timeout_def)
qed

text \<open>
  The amended C6 for a pending \<^verbatim>\<open>tools/list\<close> call on the xero child, which exits
  and reports an error.
\<close>

theorem lifecycle_events_settle_nothing_witness:
  \<open>map awaiting (tasks (run [Exit Xero, SpawnError Xero]
       (run [Request (GetTools None), Settle 0 (Inr (JBool True)), Resume 0] boot)))
     = [Some (CallOf Xero (list_request 2))]
   \<and> promise (xero_call_timeout (new_call (list_request 2)))
     = Rejected ''Timeout waiting for response''\<close>
proof -
  have a: "\<forall>e \<in> set [Exit Xero, SpawnError Xero]. is_lifecycle e"
    by simp
  have p: "promise (new_call (list_request 2)) = Pending"
    by (simp add: new_call_def)
  have t: "map awaiting (tasks (run [Request (GetTools None), Settle 0 (Inr (JBool True)), Resume 0] boot))
            = [Some (CallOf Xero (list_request 2))]"
    by code_simp
  show ?thesis
    using lifecycle_events_settle_nothing [OF a p,
        of "run [Request (GetTools None), Settle 0 (Inr (JBool True)), Resume 0] boot"] t
    by simp
qed

subsection \<open>The next request after a child has exited\<close>

text \<open>
  C5.  The xero child is spawned, initialized and used by a first \<^verbatim>\<open>GET /tools\<close>, then it
  exits, then a second \<^verbatim>\<open>GET /tools\<close> arrives.  \<^verbatim>\<open>initMCPServer\<close> finds
  \<^verbatim>\<open>mcpServerProcess\<close> still set, so its promise is resolved at once and the handler
  continues with no spawn and no handshake: \<^verbatim>\<open>spawn\<close> was called once in all, and the
  \<^verbatim>\<open>tools/list\<close> request with the id 3 is written to the child that has exited.
\<close>

theorem xero_not_respawned_after_exit:
  \<open>let s = run [Request (GetTools None), Settle 0 (Inr (JBool True)), Resume 0,
                Settle 0 (Inr (JObj [jsonrpc, (''id'', JNum 2),
                                     (''result'', JObj [(''tools'', JArr [])])])), Resume 0,
                Exit Xero,
                Request (GetTools None), Resume 1] boot
   in responses s = [(0, 200, tools_body [])]
    \<and> spawned s = 1
    \<and> mcpServerProcess s = Some \<lparr>pid = 0, exited = True\<rparr>
    \<and> wire s = [(Xero, \<lparr>pid = 0, exited = False\<rparr>, initMessage 1, Handshake),
                (Xero, \<lparr>pid = 0, exited = False\<rparr>, list_request 2, Handler 0),
                (Xero, \<lparr>pid = 0, exited = True\<rparr>, list_request 3, Handler 1)]
    \<and> map awaiting (tasks s) = [None, Some (CallOf Xero (list_request 3))]\<close>
  by code_simp

text \<open>
  The same on the supabase side, whose exit handler clears \<^verbatim>\<open>supabaseProcess\<close>: the
  next request spawns a second child and sends it \<^verbatim>\<open>initialize\<close>.
\<close>

lemma supabase_respawned_after_exit:
  \<open>let s = run [Request (PostSupabaseTool ''list_tables'' (Some (JObj []))),
                Settle 0 (Inr (JBool True)), Resume 0,
                Settle 0 (Inr (JObj [jsonrpc, (''id'', JNum 2), (''result'', JObj [])])), Resume 0,
                Exit Supabase,
                Request (PostSupabaseTool ''list_tables'' (Some (JObj [])))] boot
   in spawned s = 2
    \<and> supabaseProcess s = Some \<lparr>pid = 1, exited = False\<rparr>
    \<and> wire s = [(Supabase, \<lparr>pid = 0, exited = False\<rparr>, initMessage 1, Handshake),
                (Supabase, \<lparr>pid = 0, exited = False\<rparr>,
                 call_request 2 ''list_tables'' (JObj []), Handler 0),
                (Supabase, \<lparr>pid = 1, exited = False\<rparr>, initMessage 3, Handshake)]
    \<and> map awaiting (tasks s) = [None, Some (InitOf Supabase)]\<close>
  by code_simp

subsection \<open>A provider key that is not registered\<close>

text \<open>
  C4.  \<^verbatim>\<open>GET /tools?provider=ghost\<close> runs neither \<^verbatim>\<open>if\<close> block of its handler: it asks
  no provider and answers with status 200 and an empty list of tools, not with an error
  that names the provider.
\<close>

theorem unknown_provider_lists_no_tools:
  \<open>get_tools (Some ''ghost'') = Respond 200 (tools_body [])\<close>
proof -
  have "tools_provider (Some ''ghost'') = ''ghost''"
    by code_simp
  then show ?thesis
    by (simp add: get_tools_def list_block_def)
qed

text \<open>
  \<^verbatim>\<open>POST /mcp?provider=ghost\<close> with the method \<^verbatim>\<open>tools/list\<close> is routed to \<^verbatim>\<open>xero\<close>
  (line 521 maps every key but \<^verbatim>\<open>supabase\<close> and \<^verbatim>\<open>all\<close> to it).
\<close>

lemma mcp_list_unknown_provider:
  \<open>route_mcp (Some ''ghost'') (JObj [jsonrpc, (''method'', JStr ''tools/list'')])
     = Target ''xero'' (JObj [jsonrpc, (''method'', JStr ''tools/list'')])\<close>
  by code_simp

text \<open>
  \<^verbatim>\<open>POST /tools/:toolName\<close> does answer an unknown key with status 400 and the key in
  the message, before any \<^verbatim>\<open>init\<close>.
\<close>

lemma post_tool_unknown_provider:
  assumes "\<not> has_dot raw" and "v \<noteq> []" and "toLowerCase v \<noteq> ''all''"
    and "providers (toLowerCase v) = Missing"
  shows "post_tool raw (Some v) body
           = Respond 400 (error_body (- 32602) (''Unknown provider: '' @ toLowerCase v))"
  using assms by (simp add: post_tool_def route_tool_def)

lemma post_tool_ghost:
  \<open>post_tool ''unknown-tool'' (Some ''ghost'') None
     = Respond 400 (error_body (- 32602) ''Unknown provider: ghost'')\<close>
proof -
  have "route_tool ''unknown-tool'' (Some ''ghost'') = (''ghost'', ''unknown-tool'')"
    by code_simp
  moreover have "providers ''ghost'' = Missing"
    by code_simp
  ultimately show ?thesis
    by (simp add: post_tool_def)
qed

text \<open>
  A key that \<^verbatim>\<open>providers\<close> inherits, such as \<^verbatim>\<open>constructor\<close>, passes the check of line
  464; \<^verbatim>\<open>init\<close> is then not a function, and the handler answers with status 500.
\<close>

lemma post_tool_inherited_key:
  \<open>post_tool ''unknown-tool'' (Some ''constructor'') None
     = Respond 500 (error_body (- 32000) ''providers[providerKey].init is not a function'')\<close>
proof -
  have "route_tool ''unknown-tool'' (Some ''constructor'') = (''constructor'', ''unknown-tool'')"
    by code_simp
  moreover have "providers ''constructor'' = Inherited"
    by code_simp
  ultimately show ?thesis
    by (simp add: post_tool_def caught_def)
qed

subsection \<open>A tool call without arguments\<close>

text \<open>
  C9.  \<^verbatim>\<open>POST /supabase/tools/list_tables\<close> with \<^verbatim>\<open>req.body\<close> undefined: after the
  initialization, \<^verbatim>\<open>req.body.arguments\<close> throws, the handler answers with status 500,
  and no \<^verbatim>\<open>tools/call\<close> request is written to the child.
\<close>

theorem supabase_tool_without_body_fails:
  \<open>let s = run [Request (PostSupabaseTool ''list_tables'' None),
                Settle 0 (Inr (JBool True)), Resume 0] boot
   in responses s
        = [(0, 500, JObj [(''error'',
              JStr ''Cannot read properties of undefined (reading 'arguments')'')])]
    \<and> wire s = [(Supabase, \<lparr>pid = 0, exited = False\<rparr>, initMessage 1, Handshake)]\<close>
  by code_simp

text \<open>
  \<^verbatim>\<open>POST /tools/:toolName\<close> guards the read: every request it sends carries the resolved
  name and the arguments of the body, or the empty object.
\<close>

lemma tool_args_default:
  "tool_args None = JObj []"
  "get_prop ''arguments'' b = None \<Longrightarrow> tool_args (Some b) = JObj []"
  by (simp_all add: tool_args_def)

lemma post_tool_sends_args:
  "(p, m) \<in> set (fst (execute (post_tool raw q body) a c))
   \<Longrightarrow> opt_prop ''arguments'' (get_prop ''params'' m) = Some (tool_args body)
     \<and> opt_prop ''name'' (get_prop ''params'' m) = Some (JStr (snd (route_tool raw q)))"
  by (auto simp: post_tool_def caught_def call_request_def jsonrpc_def split: prod.splits if_splits entry.splits sum.splits)

subsection \<open>Upper and lower case in provider keys\<close>

lemma toLowerCase_empty [simp]: "toLowerCase v = [] \<longleftrightarrow> v = []"
  by (simp add: toLowerCase_def)

lemma toLowerCase_eq_empty:
  "toLowerCase v = toLowerCase v' \<Longrightarrow> v = [] \<longleftrightarrow> v' = []"
  by (metis toLowerCase_empty)




lemma given_lower:
  "toLowerCase v = toLowerCase v'
   \<Longrightarrow> map_option toLowerCase (given (Some v)) = map_option toLowerCase (given (Some v'))"
  using toLowerCase_eq_empty [of v v'] by (simp add: given_def)

lemma map_of_obj_set: "map_of (obj_set k v kvs) k' = (if k' = k then Some v else map_of kvs k')"
  by (induction kvs) auto





text \<open>
  The lower-case form of a key is its own lower-case form, so the theorem applies to
  every key and its lower-case form.
\<close>

lemma lower_char_idem: "lower_char (lower_char c) = lower_char c"
proof -
  have "(of_char (char_of (m::nat)) :: nat) = m mod 256" for m
    by simp
  then show ?thesis
    by (auto simp: lower_char_def Let_def)
qed

lemma toLowerCase_idem: "toLowerCase (toLowerCase s) = toLowerCase s"
  by (simp add: toLowerCase_def lower_char_idem)


subsection \<open>Listing the tools of every provider\<close>

lemma prefixed_named:
  "tool_name t \<noteq> None \<Longrightarrow> prefixed key t = Inr (namespaced key t)"
  by (cases t) (auto simp: prefixed_def namespaced_def split: option.splits json.splits)

lemma prefixed_all_named:
  "\<forall>t \<in> set ts. tool_name t \<noteq> None \<Longrightarrow> prefixed_all key ts = Inr (map (namespaced key) ts)"
  by (induction ts) (simp_all add: prefixed_named)

lemma tool_name_namespaced:
  "tool_name t = Some n \<Longrightarrow> tool_name (namespaced key t) = Some (key @ ''.'' @ n)"
  by (cases t) (auto simp: namespaced_def map_of_obj_set split: option.splits json.splits)

lemma get_prop_namespaced:
  "k \<noteq> ''name'' \<Longrightarrow> get_prop k (namespaced key t) = get_prop k t"
  by (cases t) (auto simp: namespaced_def map_of_obj_set split: option.splits json.splits)

lemma all_is_given: "toLowerCase v = ''all'' \<Longrightarrow> v \<noteq> []"
  by (auto simp: toLowerCase_def)

text \<open>
  C7.  \<^verbatim>\<open>GET /tools?provider=all\<close>, and \<^verbatim>\<open>POST /mcp\<close> with a body whose method is
  \<^verbatim>\<open>tools/list\<close> and whose provider is \<^verbatim>\<open>all\<close>, in any case of letters: in the query
  when \<^verbatim>\<open>params.provider\<close> is absent or falsy, or in \<^verbatim>\<open>params.provider\<close> under any
  query; the body may have any other properties.  Each of the three handlers sends
  \<^verbatim>\<open>{jsonrpc: '2.0', id, method: 'tools/list', params: {}}\<close> to xero and then to
  supabase, each with the id drawn from the provider's counter, and nothing else.  When
  both providers initialize and answer these requests with the tool descriptors \<open>xs\<close>
  and \<open>ss\<close> under \<^verbatim>\<open>result.tools\<close>, each descriptor an object with a string name, the
  response has status 200 and the body \<^verbatim>\<open>{jsonrpc: '2.0', result: {tools}}\<close>, where the
  tools are those of xero and then those of supabase, each list in its own order; every
  name carries its provider key and a dot as a prefix, and every other property of a
  descriptor is as the provider gave it.
\<close>

theorem fan_out_lists_every_provider:
  assumes all: "toLowerCase v = ''all''"
    and query: "map_of kvs ''method'' = Some (JStr ''tools/list'')"
               "body_provider (JObj kvs) = None"
    and hint: "map_of kvs' ''method'' = Some (JStr ''tools/list'')"
              "map_of kvs' ''params'' = Some (JObj ps)" "map_of ps ''provider'' = Some (JStr v)"
    and inits: "init_answer a Xero = Inr ix" "init_answer a Supabase = Inr isb"
               "init_all_answer a = Inr iall"
    and x: "send_answer a Xero
              (JObj [(''jsonrpc'', JStr ''2.0''), (''id'', JNum (c Xero)),
                     (''method'', JStr ''tools/list''), (''params'', JObj [])]) = Inr x"
           "get_prop ''result'' x = Some xr" "get_prop ''tools'' xr = Some (JArr xs)"
    and s: "send_answer a Supabase
              (JObj [(''jsonrpc'', JStr ''2.0''), (''id'', JNum (c Supabase)),
                     (''method'', JStr ''tools/list''), (''params'', JObj [])]) = Inr s"
           "get_prop ''result'' s = Some sr" "get_prop ''tools'' sr = Some (JArr ss)"
    and named: "\<forall>t \<in> set (xs @ ss). tool_name t \<noteq> None"
  shows "(\<forall>h \<in> {get_tools (Some v), post_mcp (Some v) (Some (JObj kvs)),
                 post_mcp q (Some (JObj kvs'))}.
            execute h a c
              = ([(Xero, JObj [(''jsonrpc'', JStr ''2.0''), (''id'', JNum (c Xero)),
                               (''method'', JStr ''tools/list''), (''params'', JObj [])]),
                  (Supabase, JObj [(''jsonrpc'', JStr ''2.0''), (''id'', JNum (c Supabase)),
                                   (''method'', JStr ''tools/list''), (''params'', JObj [])])],
                 200,
                 JObj [(''jsonrpc'', JStr ''2.0''),
                       (''result'', JObj [(''tools'',
                          JArr (map (namespaced ''xero'') xs
                                @ map (namespaced ''supabase'') ss))])]))
       \<and> map tool_name (map (namespaced ''xero'') xs @ map (namespaced ''supabase'') ss)
           = map (\<lambda>t. map_option ((@) ''xero.'') (tool_name t)) xs
             @ map (\<lambda>t. map_option ((@) ''supabase.'') (tool_name t)) ss
       \<and> (\<forall>k. k \<noteq> ''name'' \<longrightarrow>
             map (get_prop k) (map (namespaced ''xero'') xs @ map (namespaced ''supabase'') ss)
               = map (get_prop k) (xs @ ss))"
proof -
  let ?sent = "[(Xero, list_request (c Xero)), (Supabase, list_request (c Supabase))]"
  let ?tools = "map (namespaced ''xero'') xs @ map (namespaced ''supabase'') ss"
  have ne: "v \<noteq> []"
    using all by (rule all_is_given)
  have px: "prefixed_all ''xero'' xs = Inr (map (namespaced ''xero'') xs)"
    using named by (intro prefixed_all_named) simp
  have ps: "prefixed_all ''supabase'' ss = Inr (map (namespaced ''supabase'') ss)"
    using named by (intro prefixed_all_named) simp
  have tx: "tools_of x = JArr xs"
    using x(2,3) by (simp add: tools_of_def)
  have ts: "tools_of s = JArr ss"
    using s(2,3) by (simp add: tools_of_def)
  have ax: "send_answer a Xero (list_request (c Xero)) = Inr x"
    using x(1) by (simp add: list_request_def jsonrpc_def)
  have as: "send_answer a Supabase (list_request (c Supabase)) = Inr s"
    using s(1) by (simp add: list_request_def jsonrpc_def)
  have 1: "execute (get_tools (Some v)) a c = (?sent, 200, tools_body ?tools)"
    using all ne inits ax as tx ts px ps
    by (simp add: get_tools_def tools_provider_def list_block_def map_tools_def Let_def)
  have fan: "execute (post_mcp q' body) a c = (?sent, 200, tools_body ?tools)"
    if "route_mcp q' (mcp_msg body) = FanOut" for q' body
    using that inits ax as tx ts px ps by (simp add: post_mcp_def map_tools_def)
  have r1: "route_mcp (Some v) (mcp_msg (Some (JObj kvs))) = FanOut"
    using all ne query by (simp add: route_mcp_def mcp_msg_def given_def Let_def)
  have "body_provider (JObj kvs') = Some (JStr v)"
    using hint ne by (simp add: body_provider_def)
  then have r2: "route_mcp q (mcp_msg (Some (JObj kvs'))) = FanOut"
    using all hint(1) by (simp add: route_mcp_def mcp_msg_def Let_def)
  have names: "map tool_name (map (namespaced key) ts)
                 = map (\<lambda>t. map_option ((@) (key @ ''.'')) (tool_name t)) ts"
    if "\<forall>t \<in> set ts. tool_name t \<noteq> None" for key ts
    using that by (induction ts) (auto simp: tool_name_namespaced)
  have 4: "map tool_name ?tools
           = map (\<lambda>t. map_option ((@) ''xero.'') (tool_name t)) xs
             @ map (\<lambda>t. map_option ((@) ''supabase.'') (tool_name t)) ss"
    using names [of xs "''xero''"] names [of ss "''supabase''"] named by simp
  have 5: "map (get_prop k) ?tools = map (get_prop k) (xs @ ss)" if "k \<noteq> ''name''" for k
    using that by (simp add: get_prop_namespaced)
  show ?thesis
    using 1 fan [OF r1] fan [OF r2] 4 5
    by (simp add: list_request_def jsonrpc_def tools_body_def)
qed

text \<open>
  C7 at \<^verbatim>\<open>GET /tools?provider=ALL\<close>, at \<^verbatim>\<open>POST /mcp?provider=ALL\<close> with a body that has
  an id and no params, and at \<^verbatim>\<open>POST /mcp\<close> with \<^verbatim>\<open>params.provider\<close>; xero lists one
  tool and supabase two, and each answers the one request it is to be sent only.
\<close>

theorem fan_out_lists_every_provider_witness:
  \<open>let a = \<lparr>init_answer = (\<lambda>p. Inr (JBool True)),
            init_all_answer = Inr (JArr [JBool True, JBool True]),
            send_answer = (\<lambda>p m.
              if m = JObj [(''jsonrpc'', JStr ''2.0''),
                           (''id'', JNum (case p of Xero \<Rightarrow> 2 | Supabase \<Rightarrow> 5)),
                           (''method'', JStr ''tools/list''), (''params'', JObj [])]
              then (case p of
                  Xero \<Rightarrow> Inr (JObj [(''jsonrpc'', JStr ''2.0''), (''id'', JNum 2),
                      (''result'', JObj [(''tools'',
                         JArr [JObj [(''name'', JStr ''list-contacts''),
                                     (''inputSchema'', JObj [])]])])])
                | Supabase \<Rightarrow> Inr (JObj [(''jsonrpc'', JStr ''2.0''), (''id'', JNum 5),
                      (''result'', JObj [(''tools'',
                         JArr [JObj [(''name'', JStr ''list_tables'')],
                               JObj [(''description'', JStr ''run''),
                                     (''name'', JStr ''execute_sql'')]])])]))
              else Inl ''unexpected request'')\<rparr>;
       c = (\<lambda>p. case p of Xero \<Rightarrow> 2 | Supabase \<Rightarrow> 5);
       r = ([(Xero, JObj [(''jsonrpc'', JStr ''2.0''), (''id'', JNum 2),
                          (''method'', JStr ''tools/list''), (''params'', JObj [])]),
             (Supabase, JObj [(''jsonrpc'', JStr ''2.0''), (''id'', JNum 5),
                              (''method'', JStr ''tools/list''), (''params'', JObj [])])],
            200,
            JObj [(''jsonrpc'', JStr ''2.0''),
                  (''result'', JObj [(''tools'', JArr
                     [JObj [(''name'', JStr ''xero.list-contacts''), (''inputSchema'', JObj [])],
                      JObj [(''name'', JStr ''supabase.list_tables'')],
                      JObj [(''description'', JStr ''run''),
                            (''name'', JStr ''supabase.execute_sql'')]])])])
   in execute (get_tools (Some ''ALL'')) a c = r
    \<and> execute (post_mcp (Some ''ALL'')
                 (Some (JObj [(''jsonrpc'', JStr ''2.0''), (''id'', JNum 7),
                              (''method'', JStr ''tools/list'')]))) a c = r
    \<and> execute (post_mcp None
                 (Some (JObj [(''jsonrpc'', JStr ''2.0''), (''id'', JNum 8),
                              (''method'', JStr ''tools/list''),
                              (''params'', JObj [(''provider'', JStr ''ALL'')])]))) a c = r\<close>
proof -
  let ?x = "JObj [(''jsonrpc'', JStr ''2.0''), (''id'', JNum 2),
                  (''result'', JObj [(''tools'',
                     JArr [JObj [(''name'', JStr ''list-contacts''), (''inputSchema'', JObj [])]])])]"
  let ?s = "JObj [(''jsonrpc'', JStr ''2.0''), (''id'', JNum 5),
                  (''result'', JObj [(''tools'',
                     JArr [JObj [(''name'', JStr ''list_tables'')],
                           JObj [(''description'', JStr ''run''),
                                 (''name'', JStr ''execute_sql'')]])])]"
  let ?c = "\<lambda>p. case p of Xero \<Rightarrow> 2 | Supabase \<Rightarrow> (5::int)"
  let ?a = "\<lparr>init_answer = (\<lambda>p. Inr (JBool True)),
        init_all_answer = Inr (JArr [JBool True, JBool True]),
        send_answer = (\<lambda>p m.
          if m = JObj [(''jsonrpc'', JStr ''2.0''), (''id'', JNum (?c p)),
                       (''method'', JStr ''tools/list''), (''params'', JObj [])]
          then (case p of Xero \<Rightarrow> Inr ?x | Supabase \<Rightarrow> Inr ?s)
          else Inl ''unexpected request'')\<rparr>"
  let ?xs = "[JObj [(''name'', JStr ''list-contacts''), (''inputSchema'', JObj [])]]"
  let ?ss = "[JObj [(''name'', JStr ''list_tables'')],
              JObj [(''description'', JStr ''run''), (''name'', JStr ''execute_sql'')]]"
  let ?kvs = "[(''jsonrpc'', JStr ''2.0''), (''id'', JNum 7), (''method'', JStr ''tools/list'')]"
  let ?ps = "[(''provider'', JStr ''ALL'')]"
  let ?kvs' = "[(''jsonrpc'', JStr ''2.0''), (''id'', JNum 8), (''method'', JStr ''tools/list''),
                (''params'', JObj ?ps)]"
  have all: "toLowerCase ''ALL'' = ''all''"
    by code_simp
  have query: "map_of ?kvs ''method'' = Some (JStr ''tools/list'')"
              "body_provider (JObj ?kvs) = None"
    by (simp_all add: body_provider_def)
  have hint: "map_of ?kvs' ''method'' = Some (JStr ''tools/list'')"
             "map_of ?kvs' ''params'' = Some (JObj ?ps)"
             "map_of ?ps ''provider'' = Some (JStr ''ALL'')"
    by simp_all
  have i: "init_answer ?a Xero = Inr (JBool True)" "init_answer ?a Supabase = Inr (JBool True)"
          "init_all_answer ?a = Inr (JArr [JBool True, JBool True])"
    by simp_all
  have x: "send_answer ?a Xero
              (JObj [(''jsonrpc'', JStr ''2.0''), (''id'', JNum (?c Xero)),
                     (''method'', JStr ''tools/list''), (''params'', JObj [])]) = Inr ?x"
          "get_prop ''result'' ?x = Some (JObj [(''tools'', JArr ?xs)])"
          "get_prop ''tools'' (JObj [(''tools'', JArr ?xs)]) = Some (JArr ?xs)"
    by simp_all
  have s: "send_answer ?a Supabase
              (JObj [(''jsonrpc'', JStr ''2.0''), (''id'', JNum (?c Supabase)),
                     (''method'', JStr ''tools/list''), (''params'', JObj [])]) = Inr ?s"
          "get_prop ''result'' ?s = Some (JObj [(''tools'', JArr ?ss)])"
          "get_prop ''tools'' (JObj [(''tools'', JArr ?ss)]) = Some (JArr ?ss)"
    by simp_all
  have named: "\<forall>t \<in> set (?xs @ ?ss). tool_name t \<noteq> None"
    by simp
  from fan_out_lists_every_provider [OF all query hint i x s named, of None]
  show ?thesis
    by (simp add: namespaced_def Let_def)
qed

subsection \<open>An environment without the supabase command\<close>

text \<open>
  In an environment that does not name the supabase command, \<^verbatim>\<open>initSupabaseServer\<close>
  rejects before it spawns a child or draws an id.
\<close>

lemma supabase_not_configured:
  \<open>let s = run [Request (PostSupabaseTool ''list_tables'' (Some (JObj []))), Resume 0]
               (start \<lparr>SUPABASE_MCP_BIN = None, SUPABASE_MCP_ARGS = None\<rparr>)
   in responses s = [(0, 500, JObj [(''error'', JStr ''defaultArgs is not defined'')])]
    \<and> spawned s = 0 \<and> supabaseMessageId s = 1 \<and> wire s = []\<close>
  by code_simp

subsection \<open>The ids of outbound requests\<close>

lemma post_incr_ge: "n \<le> post_incr n"
  by (simp add: post_incr_def)

lemma all_pkey: "(\<forall>q. P q) \<longleftrightarrow> P Xero \<and> P Supabase"
  by (metis pkey.exhaust)

lemma counter_tasks [simp]: "counter q (s\<lparr>tasks := x\<rparr>) = counter q s"
  by (cases q) simp_all

lemma counter_responses [simp]: "counter q (s\<lparr>responses := x\<rparr>) = counter q s"
  by (cases q) simp_all

lemma counter_wire [simp]: "counter q (s\<lparr>wire := x\<rparr>) = counter q s"
  by (cases q) simp_all

lemma ids_inv_grow:
  assumes "ids_inv rs p s" and "counter p s \<le> counter p s'"
    and "built_ids rs p s' = built_ids rs p s"
  shows "ids_inv rs p s'"
proof -
  have "increasing_ids rs p s'" if b: "counter p s' < 9007199254740992"
  proof -
    have "counter p s < 9007199254740992"
      using b assms(2) by simp
    then obtain ns where ns: "built_ids rs p s = map (\<lambda>n. Some (JNum n)) ns" "sorted_wrt (<) ns"
        "\<forall>n \<in> set ns. n < counter p s"
      using assms(1) by (auto simp: ids_inv_def increasing_ids_def)
    have "\<forall>n \<in> set ns. n < counter p s'"
      using ns(3) assms(2) by auto
    then show ?thesis
      using ns assms(3) by (auto simp: increasing_ids_def)
  qed
  then show ?thesis
    by (simp add: ids_inv_def)
qed

lemma ids_inv_write:
  assumes "ids_inv rs p s" and "counter p s' = post_incr (counter p s)"
    and "built_ids rs p s' = built_ids rs p s @ [Some (JNum (counter p s))]"
  shows "ids_inv rs p s'"
proof -
  have "increasing_ids rs p s'" if b: "counter p s' < 9007199254740992"
  proof -
    have lt: "counter p s < 9007199254740992"
      using b assms(2) post_incr_ge [of "counter p s"] by simp
    then obtain ns where ns: "built_ids rs p s = map (\<lambda>n. Some (JNum n)) ns" "sorted_wrt (<) ns"
        "\<forall>n \<in> set ns. n < counter p s"
      using assms(1) by (auto simp: ids_inv_def increasing_ids_def)
    have c': "counter p s' = counter p s + 1"
      using lt assms(2) by (simp add: post_incr_def)
    have 1: "built_ids rs p s' = map (\<lambda>n. Some (JNum n)) (ns @ [counter p s])"
      using ns(1) assms(3) by simp
    have 2: "sorted_wrt (<) (ns @ [counter p s])"
      using ns(2,3) by (simp add: sorted_wrt_append)
    have 3: "\<forall>n \<in> set (ns @ [counter p s]). n < counter p s'"
      using ns(3) c' by auto
    show ?thesis
      unfolding increasing_ids_def using 1 2 3 by blast
  qed
  then show ?thesis
    by (simp add: ids_inv_def)
qed

lemma id_initMessage: "get_prop ''id'' (initMessage i) = Some (JNum i)"
  by (simp add: initMessage_def jsonrpc_def)

lemma id_list_request: "get_prop ''id'' (list_request i) = Some (JNum i)"
  by (simp add: list_request_def jsonrpc_def)

lemma id_call_request: "get_prop ''id'' (call_request i name args) = Some (JNum i)"
  by (simp add: call_request_def jsonrpc_def)

text \<open>
  One step of the bridge at the wire: the counters do not decrease, and at most one
  message is written; if it counts as built by the bridge, it carries the value of its
  provider's counter, which the step advances.
\<close>

lemma wire_inv_step:
  assumes inv: "wire_inv rs s"
    and le: "\<And>q. counter q s \<le> counter q s'"
    and w: "wire s' = wire s
       \<or> (\<exists>p c m w. wire s' = wire s @ [(p, c, m, w)] \<and> known rs w
            \<and> (bridge_built rs w \<longrightarrow> get_prop ''id'' m = Some (JNum (counter p s))
                  \<and> counter p s' = post_incr (counter p s)))"
  shows "wire_inv rs s'"
proof -
  have ids: "ids_inv rs q s'" if q: "ids_inv rs q s" for q
    using w
  proof
    assume "wire s' = wire s"
    then have "built_ids rs q s' = built_ids rs q s"
      by (simp add: built_ids_def)
    with q le show ?thesis
      by (rule ids_inv_grow)
  next
    assume "\<exists>p c m w. wire s' = wire s @ [(p, c, m, w)] \<and> known rs w
            \<and> (bridge_built rs w \<longrightarrow> get_prop ''id'' m = Some (JNum (counter p s))
                  \<and> counter p s' = post_incr (counter p s))"
    then obtain p c m w where a: "wire s' = wire s @ [(p, c, m, w)]"
      and b: "bridge_built rs w \<Longrightarrow> get_prop ''id'' m = Some (JNum (counter p s))"
             "bridge_built rs w \<Longrightarrow> counter p s' = post_incr (counter p s)"
      by blast
    show ?thesis
    proof (cases "q = p \<and> bridge_built rs w")
      case True
      have "built_ids rs q s' = built_ids rs q s @ [Some (JNum (counter q s))]"
        using a True b(1) by (simp add: built_ids_def)
      moreover have "counter q s' = post_incr (counter q s)"
        using True b(2) by simp
      ultimately show ?thesis
        using q by (intro ids_inv_write [of rs q s s'])
    next
      case False
      have "built_ids rs q s' = built_ids rs q s"
        using a False by (auto simp: built_ids_def)
      with q le show ?thesis
        by (rule ids_inv_grow)
    qed
  qed
  have known: "\<forall>(q, c, m, w) \<in> set (wire s'). known rs w"
    using w inv by (auto simp: wire_inv_def)
  show ?thesis
    using inv ids known by (simp add: wire_inv_def)
qed

lemma wire_inv_cong:
  assumes "\<And>q. counter q s' = counter q s" and "wire s' = wire s"
  shows "wire_inv rs s' = wire_inv rs s"
  using assms by (simp add: wire_inv_def ids_inv_def increasing_ids_def built_ids_def)

lemma init_effect:
  "(wire (fst (init p s)) = wire s \<and> (\<forall>q. counter q (fst (init p s)) = counter q s))
   \<or> (\<exists>c. wire (fst (init p s)) = wire s @ [(p, c, initMessage (counter p s), Handshake)]
        \<and> counter p (fst (init p s)) = post_incr (counter p s)
        \<and> (\<forall>q. q \<noteq> p \<longrightarrow> counter q (fst (init p s)) = counter q s))"
  by (cases p)
     (auto simp: initMCPServer_def initSupabaseServer_def Let_def all_pkey split: option.splits)

lemma init_tasks: "tasks (fst (init p s)) = tasks s"
  by (cases p) (simp_all add: initMCPServer_def initSupabaseServer_def Let_def split: option.splits)

lemma wire_inv_init:
  assumes "wire_inv rs s"
  shows "wire_inv rs (fst (init p s))"
  using assms
proof (rule wire_inv_step)
  show "counter q s \<le> counter q (fst (init p s))" for q
    using init_effect [of p s] post_incr_ge [of "counter p s"] by (cases "q = p") auto
  show "wire (fst (init p s)) = wire s
       \<or> (\<exists>pa c m w. wire (fst (init p s)) = wire s @ [(pa, c, m, w)] \<and> known rs w
            \<and> (bridge_built rs w \<longrightarrow> get_prop ''id'' m = Some (JNum (counter pa s))
                  \<and> counter pa (fst (init p s)) = post_incr (counter pa s)))"
    using init_effect [of p s] id_initMessage by fastforce
qed

lemma init_all_fst: "fst (init_all s) = fst (init Supabase (fst (init Xero s)))"
  by (simp add: init_all_def split: prod.splits)

lemma wire_inv_init_all: "wire_inv rs s \<Longrightarrow> wire_inv rs (fst (init_all s))"
  unfolding init_all_fst by (intro wire_inv_init)

lemma init_all_tasks: "tasks (fst (init_all s)) = tasks s"
  unfolding init_all_fst by (simp only: init_tasks)

lemma send_effect:
  "fst (send p t m s) = s \<or> (\<exists>c. fst (send p t m s) = s\<lparr>wire := wire s @ [(p, c, m, Handler t)]\<rparr>)"
  by (cases p) (auto simp: sendMCPMessage_def sendSupabaseMessage_def split: option.splits)

lemma send_tasks: "tasks (fst (send p t m s)) = tasks s"
  using send_effect [of p t m s] by auto

lemma bump_counter:
  "counter q (bump p s) = (if q = p then post_incr (counter p s) else counter q s)"
  by (cases p; cases q) simp_all

lemma bump_effect: "wire (bump p s) = wire s" "tasks (bump p s) = tasks s"
  by (cases p; simp)+

lemma wire_inv_bump:
  assumes "wire_inv rs s"
  shows "wire_inv rs (bump p s)"
  using assms
proof (rule wire_inv_step)
  show "counter q s \<le> counter q (bump p s)" for q
    using post_incr_ge [of "counter p s"] by (simp add: bump_counter)
  show "wire (bump p s) = wire s
       \<or> (\<exists>pa c m w. wire (bump p s) = wire s @ [(pa, c, m, w)] \<and> known rs w
            \<and> (bridge_built rs w \<longrightarrow> get_prop ''id'' m = Some (JNum (counter pa s))
                  \<and> counter pa (bump p s) = post_incr (counter pa s)))"
    by (simp add: bump_effect)
qed

text \<open>A message that carries the id just drawn, whoever sends it.\<close>

lemma wire_inv_call:
  assumes inv: "wire_inv rs s" and t: "t < length rs"
    and m: "get_prop ''id'' m = Some (JNum (counter p s))"
  shows "wire_inv rs (fst (send p t m (bump p s)))"
  using inv
proof (rule wire_inv_step)
  let ?s = "fst (send p t m (bump p s))"
  have c: "counter q ?s = counter q (bump p s)" for q
    using send_effect [of p t m "bump p s"] by auto
  show "counter q s \<le> counter q ?s" for q
    unfolding c
    using post_incr_ge [of "counter p s"] by (simp add: bump_counter)
  have "wire ?s = wire s \<or> (\<exists>c. wire ?s = wire s @ [(p, c, m, Handler t)])"
    using send_effect [of p t m "bump p s"] by (auto simp: bump_effect)
  moreover have "counter p ?s = post_incr (counter p s)"
    unfolding c by (simp add: bump_counter)
  ultimately show "wire ?s = wire s
       \<or> (\<exists>pa c ma w. wire ?s = wire s @ [(pa, c, ma, w)] \<and> known rs w
            \<and> (bridge_built rs w \<longrightarrow> get_prop ''id'' ma = Some (JNum (counter pa s))
                  \<and> counter pa ?s = post_incr (counter pa s)))"
    using t m by fastforce
qed

text \<open>A message sent by a handler that passes a client's id on, whatever it carries.\<close>

lemma wire_inv_forward:
  assumes inv: "wire_inv rs s" and t: "t < length rs"
    and f: "\<not> no_pass_through (Request (rs ! t))"
  shows "wire_inv rs (fst (send p t m s))"
  using inv
proof (rule wire_inv_step)
  let ?s = "fst (send p t m s)"
  have c: "counter q ?s = counter q s" for q
    using send_effect [of p t m s] by auto
  show "counter q s \<le> counter q ?s" for q
    unfolding c by simp
  have "wire ?s = wire s \<or> (\<exists>c. wire ?s = wire s @ [(p, c, m, Handler t)])"
    using send_effect [of p t m s] by auto
  then show "wire ?s = wire s
       \<or> (\<exists>pa c ma w. wire ?s = wire s @ [(pa, c, ma, w)] \<and> known rs w
            \<and> (bridge_built rs w \<longrightarrow> get_prop ''id'' ma = Some (JNum (counter pa s))
                  \<and> counter pa ?s = post_incr (counter pa s)))"
    using t f by fastforce
qed

lemma tasks_ok_update:
  assumes "tasks_ok rs ts" and "no_pass_through (Request (rs ! t)) \<Longrightarrow> task_ok y"
  shows "tasks_ok rs (ts[t := y])"
proof -
  have "task_ok (ts[t := y] ! u)" if u: "u < length rs" "no_pass_through (Request (rs ! u))" for u
  proof (cases "u = t")
    case True
    then show ?thesis
      using assms u by (simp add: tasks_ok_def)
  next
    case False
    then show ?thesis
      using assms(1) u by (simp add: tasks_ok_def)
  qed
  then show ?thesis
    using assms(1) by (simp add: tasks_ok_def)
qed

lemma suspend_wire_inv: "wire_inv rs (suspend t a k r) = wire_inv rs (fst r)"
proof (cases r)
  case (Pair s v)
  show ?thesis
    unfolding Pair by (cases v; simp add: suspend_def; rule wire_inv_cong; simp)
qed

lemma suspend_tasks:
  "tasks (suspend t a k r)
     = (tasks (fst r))[t := (case snd r of None \<Rightarrow> Waiting a k | Some v \<Rightarrow> Ready (k v))]"
  by (cases r) (simp add: suspend_def split: option.splits)

lemma suspend_inv:
  assumes "wire_inv rs (fst r)" and "tasks_ok rs (tasks (fst r))"
    and "no_pass_through (Request (rs ! t)) \<Longrightarrow> \<forall>v. disciplined (k v)"
  shows "bridge_inv rs (suspend t a k r)"
proof -
  have "no_pass_through (Request (rs ! t))
        \<Longrightarrow> task_ok (case snd r of None \<Rightarrow> Waiting a k | Some v \<Rightarrow> Ready (k v))"
    using assms(3) by (simp split: option.splits)
  with assms(2) have "tasks_ok rs (tasks (suspend t a k r))"
    unfolding suspend_tasks by (rule tasks_ok_update)
  then show ?thesis
    using assms(1) by (simp add: bridge_inv_def suspend_wire_inv)
qed

lemma disciplined_caught: "disciplined (caught fallback e)"
  by (simp add: caught_def d_Respond)

lemma disciplined_supabase_caught: "disciplined (supabase_caught e)"
  by (simp add: supabase_caught_def d_Respond)

lemma disciplined_reply:
  "disciplined (case r of Inl e \<Rightarrow> caught fallback e | Inr out \<Rightarrow> Respond 200 out)"
  by (cases r) (simp_all add: disciplined_caught d_Respond)

lemma disciplined_supabase_reply:
  "disciplined (case r of Inl e \<Rightarrow> supabase_caught e | Inr out \<Rightarrow> Respond 200 out)"
  by (cases r) (simp_all add: disciplined_supabase_caught d_Respond)

lemma disciplined_list_block:
  assumes rest: "\<And>ls. disciplined (rest ls)"
  shows "disciplined (list_block p provider done rest)"
proof (cases "provider = key_of p \<or> provider = ''all''")
  case False
  then show ?thesis
    by (simp add: list_block_def rest)
next
  case True
  have after: "disciplined (case r of
          Inl e \<Rightarrow> caught ''tools error'' e
        | Inr resp \<Rightarrow>
            (case map_tools (provider = ''all'') (key_of p) (tools_of resp) of
               Inl e \<Rightarrow> caught ''tools error'' e
             | Inr tools \<Rightarrow> rest (done @ [tools])))" for r
    by (cases r) (auto simp: disciplined_caught rest split: sum.splits)
  have call: "disciplined (NextId p (\<lambda>i. Send p (list_request i) (\<lambda>r. case r of
          Inl e \<Rightarrow> caught ''tools error'' e
        | Inr resp \<Rightarrow>
            (case map_tools (provider = ''all'') (key_of p) (tools_of resp) of
               Inl e \<Rightarrow> caught ''tools error'' e
             | Inr tools \<Rightarrow> rest (done @ [tools])))))"
    by (rule d_Call) (simp_all only: id_list_request after)
  have "disciplined (case r of Inl e \<Rightarrow> caught ''tools error'' e
        | Inr ok \<Rightarrow> NextId p (\<lambda>i. Send p (list_request i) (\<lambda>r. case r of
          Inl e \<Rightarrow> caught ''tools error'' e
        | Inr resp \<Rightarrow>
            (case map_tools (provider = ''all'') (key_of p) (tools_of resp) of
               Inl e \<Rightarrow> caught ''tools error'' e
             | Inr tools \<Rightarrow> rest (done @ [tools])))))" for r
    by (cases r) (simp_all add: disciplined_caught call)
  then have "disciplined (Init p (\<lambda>r. case r of Inl e \<Rightarrow> caught ''tools error'' e
        | Inr ok \<Rightarrow> NextId p (\<lambda>i. Send p (list_request i) (\<lambda>r. case r of
          Inl e \<Rightarrow> caught ''tools error'' e
        | Inr resp \<Rightarrow>
            (case map_tools (provider = ''all'') (key_of p) (tools_of resp) of
               Inl e \<Rightarrow> caught ''tools error'' e
             | Inr tools \<Rightarrow> rest (done @ [tools]))))))"
    by (rule d_Init)
  then show ?thesis
    using True by (simp add: list_block_def)
qed

lemma disciplined_get_tools: "disciplined (get_tools q)"
  unfolding get_tools_def Let_def
  by (intro disciplined_list_block d_Respond)

lemma disciplined_call_reply:
  assumes "\<And>i. get_prop ''id'' (mk i) = Some (JNum i)"
  shows "disciplined (case r of
           Inl e \<Rightarrow> caught fallback e
         | Inr ok \<Rightarrow> NextId p (\<lambda>i. Send p (mk i) (\<lambda>r. case r of
               Inl e \<Rightarrow> caught fallback e
             | Inr out \<Rightarrow> Respond 200 out)))"
proof (cases r)
  case (Inl e)
  then show ?thesis
    by (simp add: disciplined_caught)
next
  case (Inr ok)
  have "disciplined (NextId p (\<lambda>i. Send p (mk i) (\<lambda>r. case r of
               Inl e \<Rightarrow> caught fallback e
             | Inr out \<Rightarrow> Respond 200 out)))"
    by (rule d_Call) (simp_all only: assms disciplined_reply)
  then show ?thesis
    using Inr by simp
qed

lemma providers_Provider:
  "providers key = Provider p \<Longrightarrow> (if key = ''supabase'' then Supabase else Xero) = p"
  by (auto simp: providers_def split: if_splits)

lemma disciplined_post_tool: "disciplined (post_tool raw q body)"
proof -
  obtain key name where r: "route_tool raw q = (key, name)"
    by (cases "route_tool raw q")
  show ?thesis
  proof (cases "key = ''all''")
    case True
    then show ?thesis
      using r by (simp add: post_tool_def d_Respond)
  next
    case False
    show ?thesis
    proof (cases "providers key")
      case (Provider p)
      have k: "(if key = ''supabase'' then Supabase else Xero) = p"
        using Provider by (rule providers_Provider)
      have "disciplined (Init p (\<lambda>r. case r of
           Inl e \<Rightarrow> caught ''tool call failed'' e
         | Inr ok \<Rightarrow> NextId p (\<lambda>i. Send p (call_request i name (tool_args body)) (\<lambda>r. case r of
               Inl e \<Rightarrow> caught ''tool call failed'' e
             | Inr out \<Rightarrow> Respond 200 out))))"
        by (rule d_Init) (rule disciplined_call_reply, rule id_call_request)
      then show ?thesis
        using r False Provider k by (simp add: post_tool_def)
    next
      case Inherited
      then show ?thesis
        using r False by (simp add: post_tool_def disciplined_caught)
    next
      case Missing
      then show ?thesis
        using r False by (simp add: post_tool_def d_Respond)
    qed
  qed
qed

lemma disciplined_post_supabase_tool: "disciplined (post_supabase_tool name body)"
proof -
  have reply: "disciplined (case r of Inl e \<Rightarrow> supabase_caught e | Inr ok \<Rightarrow>
         NextId Supabase (\<lambda>i. Send Supabase (call_request i name args) (\<lambda>r. case r of
               Inl e \<Rightarrow> supabase_caught e
             | Inr response \<Rightarrow> Respond 200 response)))" for r args
  proof (cases r)
    case (Inl e)
    then show ?thesis
      by (simp add: disciplined_supabase_caught)
  next
    case (Inr ok)
    have "disciplined (NextId Supabase (\<lambda>i. Send Supabase (call_request i name args)
            (\<lambda>r. case r of Inl e \<Rightarrow> supabase_caught e | Inr response \<Rightarrow> Respond 200 response)))"
      by (rule d_Call) (simp_all only: id_call_request disciplined_supabase_reply)
    then show ?thesis
      using Inr by simp
  qed
  have body: "disciplined (case r of Inl e \<Rightarrow> supabase_caught e | Inr ok \<Rightarrow>
         (case body of
            None \<Rightarrow>
              supabase_caught ''Cannot read properties of undefined (reading 'arguments')''
          | Some b \<Rightarrow>
              if b = JNull
              then supabase_caught ''Cannot read properties of null (reading 'arguments')''
              else (let toolArguments =
                          (case get_prop ''arguments'' b of
                             None \<Rightarrow> JObj []
                           | Some a \<Rightarrow> if truthy a then a else JObj [])
                    in NextId Supabase (\<lambda>i.
                       Send Supabase (call_request i name toolArguments) (\<lambda>r. case r of
                         Inl e \<Rightarrow> supabase_caught e
                       | Inr response \<Rightarrow> Respond 200 response)))))" for r
  proof (cases r)
    case (Inl e)
    then show ?thesis
      by (simp add: disciplined_supabase_caught)
  next
    case (Inr ok)
    show ?thesis
    proof (cases body)
      case None
      then show ?thesis
        using Inr by (simp add: disciplined_supabase_caught)
    next
      case (Some b)
      show ?thesis
        using Inr Some reply [of _ "Inr ok"]
        by (simp add: disciplined_supabase_caught Let_def)
    qed
  qed
  show ?thesis
    unfolding post_supabase_tool_def by (rule d_Init) (rule body)
qed

lemma disciplined_fan_out:
  "disciplined (InitAll (\<lambda>r. case r of
            Inl e \<Rightarrow> caught ''mcp error'' e
          | Inr ok \<Rightarrow>
              NextId Xero (\<lambda>i. Send Xero (list_request i) (\<lambda>r. case r of
                Inl e \<Rightarrow> caught ''mcp error'' e
              | Inr x \<Rightarrow>
                  NextId Supabase (\<lambda>j. Send Supabase (list_request j) (\<lambda>r. case r of
                    Inl e \<Rightarrow> caught ''mcp error'' e
                  | Inr s \<Rightarrow>
                      (case map_tools True ''xero'' (tools_of x) of
                         Inl e \<Rightarrow> caught ''mcp error'' e
                       | Inr xTools \<Rightarrow>
                           (case map_tools True ''supabase'' (tools_of s) of
                              Inl e \<Rightarrow> caught ''mcp error'' e
                            | Inr sTools \<Rightarrow>
                                Respond 200 (tools_body (xTools @ sTools))))))))))"
proof -
  have last: "disciplined (case r of
                    Inl e \<Rightarrow> caught ''mcp error'' e
                  | Inr s \<Rightarrow>
                      (case map_tools True ''xero'' (tools_of x) of
                         Inl e \<Rightarrow> caught ''mcp error'' e
                       | Inr xTools \<Rightarrow>
                           (case map_tools True ''supabase'' (tools_of s) of
                              Inl e \<Rightarrow> caught ''mcp error'' e
                            | Inr sTools \<Rightarrow>
                                Respond 200 (tools_body (xTools @ sTools)))))" for r x
    by (cases r) (auto simp: disciplined_caught d_Respond split: sum.splits)
  have second: "disciplined (case r of
                Inl e \<Rightarrow> caught ''mcp error'' e
              | Inr x \<Rightarrow>
                  NextId Supabase (\<lambda>j. Send Supabase (list_request j) (\<lambda>r. case r of
                    Inl e \<Rightarrow> caught ''mcp error'' e
                  | Inr s \<Rightarrow>
                      (case map_tools True ''xero'' (tools_of x) of
                         Inl e \<Rightarrow> caught ''mcp error'' e
                       | Inr xTools \<Rightarrow>
                           (case map_tools True ''supabase'' (tools_of s) of
                              Inl e \<Rightarrow> caught ''mcp error'' e
                            | Inr sTools \<Rightarrow>
                                Respond 200 (tools_body (xTools @ sTools)))))))" for r
  proof (cases r)
    case (Inl e)
    then show ?thesis
      by (simp add: disciplined_caught)
  next
    case (Inr x)
    have "disciplined (NextId Supabase (\<lambda>j. Send Supabase (list_request j) (\<lambda>r. case r of
                    Inl e \<Rightarrow> caught ''mcp error'' e
                  | Inr s \<Rightarrow>
                      (case map_tools True ''xero'' (tools_of x) of
                         Inl e \<Rightarrow> caught ''mcp error'' e
                       | Inr xTools \<Rightarrow>
                           (case map_tools True ''supabase'' (tools_of s) of
                              Inl e \<Rightarrow> caught ''mcp error'' e
                            | Inr sTools \<Rightarrow>
                                Respond 200 (tools_body (xTools @ sTools)))))))"
      by (rule d_Call) (simp_all only: id_list_request last)
    then show ?thesis
      using Inr by simp
  qed
  have first: "disciplined (case r of
            Inl e \<Rightarrow> caught ''mcp error'' e
          | Inr ok \<Rightarrow>
              NextId Xero (\<lambda>i. Send Xero (list_request i) (\<lambda>r. case r of
                Inl e \<Rightarrow> caught ''mcp error'' e
              | Inr x \<Rightarrow>
                  NextId Supabase (\<lambda>j. Send Supabase (list_request j) (\<lambda>r. case r of
                    Inl e \<Rightarrow> caught ''mcp error'' e
                  | Inr s \<Rightarrow>
                      (case map_tools True ''xero'' (tools_of x) of
                         Inl e \<Rightarrow> caught ''mcp error'' e
                       | Inr xTools \<Rightarrow>
                           (case map_tools True ''supabase'' (tools_of s) of
                              Inl e \<Rightarrow> caught ''mcp error'' e
                            | Inr sTools \<Rightarrow>
                                Respond 200 (tools_body (xTools @ sTools)))))))))" for r
  proof (cases r)
    case (Inl e)
    then show ?thesis
      by (simp add: disciplined_caught)
  next
    case (Inr ok)
    have "disciplined (NextId Xero (\<lambda>i. Send Xero (list_request i) (\<lambda>r. case r of
                Inl e \<Rightarrow> caught ''mcp error'' e
              | Inr x \<Rightarrow>
                  NextId Supabase (\<lambda>j. Send Supabase (list_request j) (\<lambda>r. case r of
                    Inl e \<Rightarrow> caught ''mcp error'' e
                  | Inr s \<Rightarrow>
                      (case map_tools True ''xero'' (tools_of x) of
                         Inl e \<Rightarrow> caught ''mcp error'' e
                       | Inr xTools \<Rightarrow>
                           (case map_tools True ''supabase'' (tools_of s) of
                              Inl e \<Rightarrow> caught ''mcp error'' e
                            | Inr sTools \<Rightarrow>
                                Respond 200 (tools_body (xTools @ sTools)))))))))"
      by (rule d_Call) (simp_all only: id_list_request second)
    then show ?thesis
      using Inr by simp
  qed
  show ?thesis
    by (rule d_InitAll) (rule first)
qed

lemma disciplined_post_mcp:
  assumes "no_pass_through (Request (PostMcp q body))"
  shows "disciplined (post_mcp q body)"
proof (cases "route_mcp q (mcp_msg body)")
  case (Thrown e)
  then show ?thesis
    by (simp add: post_mcp_def disciplined_caught)
next
  case FanOut
  then show ?thesis
    using disciplined_fan_out by (simp add: post_mcp_def)
next
  case (Target key msg)
  show ?thesis
  proof (cases "providers key")
    case (Provider p)
    then show ?thesis
      using assms Target by simp
  next
    case Inherited
    then show ?thesis
      using Target by (simp add: post_mcp_def disciplined_caught)
  next
    case Missing
    then show ?thesis
      using Target by (simp add: post_mcp_def d_Respond)
  qed
qed

lemma id_supabase_mcp_message:
  assumes "''id'' \<notin> set (map fst (case body of None \<Rightarrow> [] | Some b \<Rightarrow> spread b))"
  shows "get_prop ''id'' (supabase_mcp_message i body) = Some (JNum i)"
proof -
  have "''id'' \<notin> set (map fst kvs')
        \<Longrightarrow> map_of (foldl (\<lambda>kvs (k, v). obj_set k v kvs) kvs0 kvs') ''id'' = map_of kvs0 ''id''"
    for kvs' kvs0
    by (induction kvs' arbitrary: kvs0) (auto simp: map_of_obj_set)
  then show ?thesis
    using assms by (simp add: supabase_mcp_message_def jsonrpc_def)
qed

lemma disciplined_get_supabase_tools: "disciplined get_supabase_tools"
proof -
  have "disciplined (case r of Inl e \<Rightarrow> supabase_caught e | Inr ok \<Rightarrow>
         NextId Supabase (\<lambda>i.
         Send Supabase (JObj [jsonrpc, (''id'', JNum i), (''method'', JStr ''tools/list'')])
           (\<lambda>r. case r of
              Inl e \<Rightarrow> supabase_caught e
            | Inr response \<Rightarrow> Respond 200 response)))" for r
  proof (cases r)
    case (Inl e)
    then show ?thesis
      by (simp add: disciplined_supabase_caught)
  next
    case (Inr ok)
    have i: "get_prop ''id'' (JObj [jsonrpc, (''id'', JNum i), (''method'', JStr ''tools/list'')])
               = Some (JNum i)" for i
      by (simp add: jsonrpc_def)
    have "disciplined (NextId Supabase (\<lambda>i.
         Send Supabase (JObj [jsonrpc, (''id'', JNum i), (''method'', JStr ''tools/list'')])
           (\<lambda>r. case r of
              Inl e \<Rightarrow> supabase_caught e
            | Inr response \<Rightarrow> Respond 200 response)))"
      by (rule d_Call) (simp_all only: i disciplined_supabase_reply)
    then show ?thesis
      using Inr by simp
  qed
  then show ?thesis
    unfolding get_supabase_tools_def by (rule d_Init)
qed

lemma disciplined_post_supabase_mcp:
  assumes "no_pass_through (Request (PostSupabaseMcp body))"
  shows "disciplined (post_supabase_mcp body)"
proof -
  have i: "get_prop ''id'' (supabase_mcp_message i body) = Some (JNum i)" for i
    using assms by (intro id_supabase_mcp_message) simp
  have "disciplined (case r of Inl e \<Rightarrow> supabase_caught e | Inr ok \<Rightarrow>
         NextId Supabase (\<lambda>i.
         Send Supabase (supabase_mcp_message i body) (\<lambda>r. case r of
           Inl e \<Rightarrow> supabase_caught e
         | Inr response \<Rightarrow> Respond 200 response)))" for r
  proof (cases r)
    case (Inl e)
    then show ?thesis
      by (simp add: disciplined_supabase_caught)
  next
    case (Inr ok)
    have "disciplined (NextId Supabase (\<lambda>i.
         Send Supabase (supabase_mcp_message i body) (\<lambda>r. case r of
           Inl e \<Rightarrow> supabase_caught e
         | Inr response \<Rightarrow> Respond 200 response)))"
      by (rule d_Call) (simp_all only: i disciplined_supabase_reply)
    then show ?thesis
      using Inr by simp
  qed
  then show ?thesis
    unfolding post_supabase_mcp_def by (rule d_Init)
qed

lemma disciplined_handler:
  assumes "no_pass_through (Request r)"
  shows "disciplined (handler r)"
proof (cases r)
  case (GetTools q)
  then show ?thesis
    by (simp add: disciplined_get_tools)
next
  case GetSupabaseTools
  then show ?thesis
    by (simp add: disciplined_get_supabase_tools)
next
  case (PostSupabaseMcp body)
  then show ?thesis
    using assms disciplined_post_supabase_mcp [of body] by simp
next
  case (PostTool raw q body)
  then show ?thesis
    by (simp add: disciplined_post_tool)
next
  case (PostSupabaseTool name body)
  then show ?thesis
    by (simp add: disciplined_post_supabase_tool)
next
  case (PostMcp q body)
  then show ?thesis
    using assms disciplined_post_mcp [of q body] by simp
qed

lemma respond_inv:
  assumes "bridge_inv rs s"
  shows "bridge_inv rs (s\<lparr>tasks := (tasks s)[t := Finished], responses := responses s @ [x]\<rparr>)"
proof -
  let ?s = "s\<lparr>tasks := (tasks s)[t := Finished], responses := responses s @ [x]\<rparr>"
  have "wire_inv rs ?s = wire_inv rs s"
    by (rule wire_inv_cong) simp_all
  moreover have "tasks_ok rs ((tasks s)[t := Finished])"
    using assms by (intro tasks_ok_update) (simp_all add: bridge_inv_def)
  ultimately show ?thesis
    using assms by (simp add: bridge_inv_def)
qed

text \<open>
  A handler that passes a client's id on may do anything: what it sends is not counted,
  and the handshakes that its calls of \<^verbatim>\<open>init\<close> write are built by the bridge.
\<close>

lemma advance_any:
  assumes t: "t < length rs" and f: "\<not> no_pass_through (Request (rs ! t))"
  shows "bridge_inv rs s \<Longrightarrow> bridge_inv rs (advance prog t s)"
proof (induction prog arbitrary: s)
  case (Respond status body)
  then show ?case
    by (simp add: respond_inv)
next
  case (Init p k)
  show ?case
    unfolding advance.simps
    using Init.prems f by (intro suspend_inv) (simp_all add: bridge_inv_def wire_inv_init init_tasks)
next
  case (InitAll k)
  show ?case
    unfolding advance.simps
    using InitAll.prems f
    by (intro suspend_inv) (simp_all add: bridge_inv_def wire_inv_init_all init_all_tasks)
next
  case (NextId p k)
  have "bridge_inv rs (bump p s)"
    using NextId.prems by (simp add: bridge_inv_def wire_inv_bump bump_effect)
  then have "bridge_inv rs (advance (k (counter p s)) t (bump p s))"
    by (intro NextId.IH) simp_all
  then show ?case
    by simp
next
  case (Send p m k)
  show ?case
    unfolding advance.simps
    using Send.prems t f
    by (intro suspend_inv) (simp_all add: bridge_inv_def wire_inv_forward send_tasks)
qed

lemma advance_disciplined:
  assumes "disciplined prog" and t: "t < length rs" and "bridge_inv rs s"
  shows "bridge_inv rs (advance prog t s)"
  using assms(1)
proof (cases rule: disciplined.cases)
  case (d_Respond status body)
  then show ?thesis
    using assms(3) by (simp add: respond_inv)
next
  case (d_Init k p)
  show ?thesis
    unfolding d_Init advance.simps
    using assms(3) d_Init(2)
    by (intro suspend_inv) (simp_all add: bridge_inv_def wire_inv_init init_tasks)
next
  case (d_InitAll k)
  show ?thesis
    unfolding d_InitAll advance.simps
    using assms(3) d_InitAll(2)
    by (intro suspend_inv) (simp_all add: bridge_inv_def wire_inv_init_all init_all_tasks)
next
  case (d_Call mk k p)
  show ?thesis
    unfolding d_Call advance.simps
    using assms(3) t d_Call(2,3)
    by (intro suspend_inv) (simp_all add: bridge_inv_def wire_inv_call send_tasks bump_effect)
qed

lemma advance_inv:
  assumes "t < length rs" and "no_pass_through (Request (rs ! t)) \<Longrightarrow> disciplined prog"
    and "bridge_inv rs s"
  shows "bridge_inv rs (advance prog t s)"
proof (cases "no_pass_through (Request (rs ! t))")
  case True
  then have "disciplined prog"
    by (rule assms(2))
  then show ?thesis
    using assms(1,3) by (rule advance_disciplined)
next
  case False
  with assms(1) show ?thesis
    using assms(3) by (rule advance_any)
qed

lemma lifecycle_inv:
  assumes "bridge_inv rs s"
  shows "bridge_inv rs (lifecycle p s)"
proof -
  have c: "counter q (lifecycle p s) = counter q s" for q
    by (cases p; cases q) simp_all
  have w: "wire (lifecycle p s) = wire s"
    by (cases p) simp_all
  have t: "tasks (lifecycle p s) = tasks s"
    by (cases p) simp_all
  show ?thesis
    using assms unfolding bridge_inv_def wire_inv_cong [OF c w] t by blast
qed

text \<open>A request arrives: what was built by the bridge before is so afterwards.\<close>

lemma request_inv:
  assumes "bridge_inv rs s"
  shows "bridge_inv (rs @ [r]) (s\<lparr>tasks := tasks s @ [Finished]\<rparr>)"
proof -
  let ?s = "s\<lparr>tasks := tasks s @ [Finished]\<rparr>"
  have known: "\<forall>(q, c, m, w) \<in> set (wire s). known rs w"
    using assms by (simp add: bridge_inv_def wire_inv_def)
  have b: "known rs w \<Longrightarrow> bridge_built (rs @ [r]) w = bridge_built rs w" for w
    by (cases w) (auto simp: nth_append)
  have k: "known rs w \<Longrightarrow> known (rs @ [r]) w" for w
    by (cases w) auto
  have "filter (\<lambda>(q', c, m, w). q' = q \<and> bridge_built (rs @ [r]) w) (wire s)
          = filter (\<lambda>(q', c, m, w). q' = q \<and> bridge_built rs w) (wire s)" for q
    using known b by (intro filter_cong) auto
  then have ids: "built_ids (rs @ [r]) q ?s = built_ids rs q s" for q
    by (simp add: built_ids_def)
  have "ids_inv (rs @ [r]) q ?s = ids_inv rs q s" for q
    by (simp add: ids_inv_def increasing_ids_def ids)
  then have w: "wire_inv (rs @ [r]) ?s"
    using assms known k by (auto simp: bridge_inv_def wire_inv_def)
  have l: "length (tasks s) = length rs"
    using assms by (simp add: bridge_inv_def tasks_ok_def)
  have "task_ok ((tasks s @ [Finished]) ! t)"
    if "t < length (rs @ [r])" "no_pass_through (Request ((rs @ [r]) ! t))" for t
  proof (cases "t < length rs")
    case True
    then show ?thesis
      using assms that(2) l by (simp add: bridge_inv_def tasks_ok_def nth_append)
  next
    case False
    then have "t = length rs"
      using that(1) by simp
    then show ?thesis
      by (simp add: nth_append l)
  qed
  then have "tasks_ok (rs @ [r]) (tasks ?s)"
    using l by (simp add: tasks_ok_def)
  then show ?thesis
    using w by (simp add: bridge_inv_def)
qed

lemma step_inv:
  assumes "bridge_inv rs s"
  shows "bridge_inv (rs @ requests [e]) (step e s)"
proof (cases e)
  case (Request r)
  have l: "length (tasks s) = length rs"
    using assms by (simp add: bridge_inv_def tasks_ok_def)
  have "bridge_inv (rs @ [r]) (advance (handler r) (length rs) (s\<lparr>tasks := tasks s @ [Finished]\<rparr>))"
  proof (rule advance_inv)
    show "length rs < length (rs @ [r])"
      by simp
    show "disciplined (handler r)" if "no_pass_through (Request ((rs @ [r]) ! length rs))"
      using that by (intro disciplined_handler) simp
    show "bridge_inv (rs @ [r]) (s\<lparr>tasks := tasks s @ [Finished]\<rparr>)"
      using assms by (rule request_inv)
  qed
  then show ?thesis
    using Request l by simp
next
  case (Settle t v)
  show ?thesis
  proof (cases "t < length (tasks s)")
    case False
    then show ?thesis
      using assms Settle by simp
  next
    case True
    show ?thesis
    proof (cases "tasks s ! t")
      case (Waiting a k)
      have "tasks_ok rs ((tasks s)[t := Ready (k v)])"
      proof (rule tasks_ok_update)
        show "tasks_ok rs (tasks s)"
          using assms by (simp add: bridge_inv_def)
        show "task_ok (Ready (k v))" if "no_pass_through (Request (rs ! t))"
          using assms that True Waiting by (auto simp: bridge_inv_def tasks_ok_def)
      qed
      moreover have "wire_inv rs (s\<lparr>tasks := (tasks s)[t := Ready (k v)]\<rparr>) = wire_inv rs s"
        by (rule wire_inv_cong) simp_all
      ultimately have "bridge_inv rs (s\<lparr>tasks := (tasks s)[t := Ready (k v)]\<rparr>)"
        using assms by (simp add: bridge_inv_def)
      then show ?thesis
        using Settle True Waiting by simp
    next
      case (Ready p)
      then show ?thesis
        using assms Settle True by simp
    next
      case Finished
      then show ?thesis
        using assms Settle True by simp
    qed
  qed
next
  case (Resume t)
  show ?thesis
  proof (cases "t < length (tasks s)")
    case False
    then show ?thesis
      using assms Resume by simp
  next
    case True
    show ?thesis
    proof (cases "tasks s ! t")
      case (Waiting a k)
      then show ?thesis
        using assms Resume True by simp
    next
      case (Ready p)
      have "bridge_inv rs (advance p t s)"
      proof (rule advance_inv)
        show "t < length rs"
          using assms True by (simp add: bridge_inv_def tasks_ok_def)
        show "disciplined p" if "no_pass_through (Request (rs ! t))"
          using assms that True Ready by (auto simp: bridge_inv_def tasks_ok_def)
        show "bridge_inv rs s"
          by (rule assms)
      qed
      then show ?thesis
        using Resume True Ready by simp
    next
      case Finished
      then show ?thesis
        using assms Resume True by simp
    qed
  qed
next
  case (Exit p)
  then show ?thesis
    using lifecycle_inv [OF assms] by simp
next
  case (SpawnError p)
  then show ?thesis
    using lifecycle_inv [OF assms] by simp
qed

lemma requests_Cons: "requests (e # es) = requests [e] @ requests es"
  by (cases e) simp_all

lemma run_inv: "bridge_inv rs s \<Longrightarrow> bridge_inv (rs @ requests es) (run es s)"
proof (induction es arbitrary: rs s)
  case Nil
  then show ?case by simp
next
  case (Cons e es)
  have "bridge_inv (rs @ requests [e]) (step e s)"
    using Cons.prems by (rule step_inv)
  then have "bridge_inv ((rs @ requests [e]) @ requests es) (run es (step e s))"
    by (rule Cons.IH)
  then show ?case
    using requests_Cons [of e es] by simp
qed

lemma start_inv: "bridge_inv [] (start e)"
proof -
  have "built_ids [] p (start e) = map (\<lambda>n. Some (JNum n)) []" for p
    by (simp add: built_ids_def start_def)
  then have "increasing_ids [] p (start e)" for p
    unfolding increasing_ids_def by (intro exI [of _ "[]"]) simp
  then show ?thesis
    by (simp add: bridge_inv_def wire_inv_def ids_inv_def tasks_ok_def start_def)
qed




text \<open>
  When no request of a run passes a client's id on, every message on the wire is built
  by the bridge.
\<close>

lemma every_request_is_bridge_built:
  assumes "\<forall>r \<in> set (requests es). no_pass_through (Request r)"
  shows "built_ids (requests es) p (run es (start e)) = wire_ids p (run es (start e))"
proof -
  have "bridge_inv ([] @ requests es) (run es (start e))"
    using start_inv by (rule run_inv)
  then have k: "\<forall>(q, c, m, w) \<in> set (wire (run es (start e))). known (requests es) w"
    by (simp add: bridge_inv_def wire_inv_def)
  have "known (requests es) w \<Longrightarrow> bridge_built (requests es) w" for w
    using assms by (cases w) auto
  with k have "filter (\<lambda>(q, c, m, w). q = p \<and> bridge_built (requests es) w) (wire (run es (start e)))
          = filter (\<lambda>(q, c, m, w). q = p) (wire (run es (start e)))"
    by (intro filter_cong) auto
  then show ?thesis
    by (simp add: built_ids_def wire_ids_def)
qed

end
